theory Spec2Isabelle
  imports Complex_Main "HOL-Library.Char_ord" "HOL-Library.List_Lexorder"
begin

section \<open>Python strings\<close>

text \<open>
  A Python \<open>str\<close> is modelled as a \<^typ>\<open>string\<close>: the list of its code points, for
  the code points below 256 (the Latin-1 range). All predicates on characters below are
  the restrictions of the Python predicates to that range.
\<close>

text \<open>\<open>str(n)\<close> and \<open>f"{n}"\<close> for an integer \<open>n\<close>: the decimal numeral.\<close>

definition digit_char :: "nat \<Rightarrow> char" where
  "digit_char d = ''0123456789'' ! d"

function show_nat :: "nat \<Rightarrow> string" where
  "show_nat n = (if n < 10 then [digit_char n] else show_nat (n div 10) @ [digit_char (n mod 10)])"
  by pat_completeness auto
termination
  by (relation "measure id") auto

declare show_nat.simps [simp del]

definition show_int :: "int \<Rightarrow> string" where
  "show_int i = (if i < 0 then CHR ''-'' # show_nat (nat (- i)) else show_nat (nat i))"

text \<open>
  \<open>int(s)\<close> on a string of decimal digits, as the patterns \<open>(\d+)\<close> deliver them.
\<close>

definition is_digit :: "char \<Rightarrow> bool" where
  "is_digit c = (c \<in> set ''0123456789'')"

definition digit_val :: "char \<Rightarrow> nat" where
  "digit_val c = of_char c - 48"

definition read_nat :: "string \<Rightarrow> nat" where
  "read_nat s = foldl (\<lambda>acc c. acc * 10 + digit_val c) 0 s"

text \<open>
  White space as \<open>str.strip()\<close>, \<open>str.isspace()\<close> and the pattern \<open>\s\<close> see it: tab, line
  feed, vertical tab, form feed, carriage return, the separators 0x1C to 0x1F, space,
  next line (0x85) and no-break space (0xA0).
\<close>

definition is_space :: "char \<Rightarrow> bool" where
  "is_space c = (c \<in> set [CHR 0x09, CHR 0x0A, CHR 0x0B, CHR 0x0C, CHR 0x0D, CHR 0x1C,
     CHR 0x1D, CHR 0x1E, CHR 0x1F, CHR 0x20, CHR 0x85, CHR 0xA0])"

definition strip :: "string \<Rightarrow> string" where
  "strip s = rev (dropWhile is_space (rev (dropWhile is_space s)))"

text \<open>
  \<open>s.split(",")\<close> and \<open>re.split(r"[;,]", s)\<close>: the pieces between the separator
  characters, empty pieces kept; the accumulator is the piece being read.
\<close>

fun split_acc :: "(char \<Rightarrow> bool) \<Rightarrow> string \<Rightarrow> string \<Rightarrow> string list" where
  "split_acc is_sep acc [] = [acc]"
| "split_acc is_sep acc (c # cs) =
     (if is_sep c then acc # split_acc is_sep [] cs else split_acc is_sep (acc @ [c]) cs)"

definition split_where :: "(char \<Rightarrow> bool) \<Rightarrow> string \<Rightarrow> string list" where
  "split_where is_sep s = split_acc is_sep [] s"

definition is_comma :: "char \<Rightarrow> bool" where
  "is_comma c = (c = CHR '','')"

definition is_semi_or_comma :: "char \<Rightarrow> bool" where
  "is_semi_or_comma c = (c = CHR '';'' \<or> c = CHR '','')"

text \<open>\<open>sep.join(xs)\<close>.\<close>

fun join :: "string \<Rightarrow> string list \<Rightarrow> string" where
  "join sep [] = []"
| "join sep [x] = x"
| "join sep (x # y # ys) = x @ sep @ join sep (y # ys)"

section \<open>The configuration document\<close>

text \<open>
  The JSON document, by the keys the program reads. A key read with
  \<open>.get(key, "")\<close> is a string field (the empty string when the key is absent); a key
  that may be absent otherwise is optional. The key \<open>zip\<close> of a preference is the field
  \<open>zip_text\<close>. The field \<open>representative\<close> is a route name
  in the documents of one page and a boolean in the documents of the manual creator
  (\<open>"representative": i == 1\<close>), so it carries either.
\<close>

datatype rep_value = RepName string | RepFlag bool

record polygon_dto =
  pd_id :: string
  pd_name :: string
  polygonCoordinates :: string
  pd_routingParameterId :: string

record preference =
  pref_id :: string
  routingParameterVehicleId :: string
  zip_text :: string
  routingParameterUiPolygonDTO :: "polygon_dto option"

record route =
  route_id :: string
  routingParameterId :: "string option"
  name :: string
  adjacentRoutes :: string
  representative :: rep_value
  routingParameterUiVehiclePreferenceDTOs :: "preference list"

record node =
  node_id :: string
  label :: string

record document =
  doc_id :: string
  admissibleRoutePatterns :: string
  routeNumberGap :: int
  routingParameterUiVehicleDTOs :: "route list"
  routingParameterNodeDTOs :: "node list option"

text \<open>
  \<open>re.match(r"([A-Z]+)\|(\d+)\|(\d+)", pattern)\<close> followed by \<open>int\<close> on the two numbers.
  Each group is greedy and the character after it is fixed, so the groups are the longest
  runs of capitals and of digits.
\<close>

definition is_upper :: "char \<Rightarrow> bool" where
  "is_upper c = (c \<in> set ''ABCDEFGHIJKLMNOPQRSTUVWXYZ'')"

definition parse_pattern :: "string \<Rightarrow> (string \<times> int \<times> int) option" where
  "parse_pattern s =
     (let prefix = takeWhile is_upper s; r1 = dropWhile is_upper s in
      if prefix = [] then None
      else case r1 of
        [] \<Rightarrow> None
      | c1 # r2 \<Rightarrow>
          if c1 \<noteq> CHR ''|'' then None
          else (let a = takeWhile is_digit r2; r3 = dropWhile is_digit r2 in
            if a = [] then None
            else case r3 of
              [] \<Rightarrow> None
            | c2 # r4 \<Rightarrow>
                if c2 \<noteq> CHR ''|'' then None
                else (let b = takeWhile is_digit r4 in
                  if b = [] then None
                  else Some (prefix, int (read_nat a), int (read_nat b)))))"

section \<open>Bulk renumbering (page "Modifier plage routes bulk")\<close>

text \<open>
  \<open>re.match(rf"{prefix}\d+", old_name)\<close>: the name starts with the prefix and a digit
  follows. The prefix is a run of capitals, so it stands for itself in the pattern.
\<close>

definition matches_prefix :: "string \<Rightarrow> string \<Rightarrow> bool" where
  "matches_prefix prefix old_name =
     (take (length prefix) old_name = prefix \<and>
      (case drop (length prefix) old_name of [] \<Rightarrow> False | c # _ \<Rightarrow> is_digit c))"

text \<open>
  Step 2: the loop that fills \<open>name_mapping\<close> (a dictionary, so a later entry for the same
  old name replaces the earlier one) and advances \<open>current_num\<close>.
\<close>

fun name_mapping_loop ::
  "string \<Rightarrow> int \<Rightarrow> route list \<Rightarrow> (string \<rightharpoonup> string) \<Rightarrow> int \<Rightarrow> (string \<rightharpoonup> string) \<times> int" where
  "name_mapping_loop prefix route_gap [] name_mapping current_num = (name_mapping, current_num)"
| "name_mapping_loop prefix route_gap (r # rs) name_mapping current_num =
     (if \<not> matches_prefix prefix (name r)
      then name_mapping_loop prefix route_gap rs name_mapping current_num
      else name_mapping_loop prefix route_gap rs
             (name_mapping(name r \<mapsto> prefix @ show_int current_num))
             (current_num + route_gap))"

text \<open>\<open>name_mapping.get(a, a)\<close>.\<close>

definition get_or :: "(string \<rightharpoonup> string) \<Rightarrow> string \<Rightarrow> string" where
  "get_or name_mapping a = (case name_mapping a of None \<Rightarrow> a | Some new_name \<Rightarrow> new_name)"

text \<open>Step 3: every route whose name is a key of the mapping takes the mapped name.\<close>

definition rename_route :: "(string \<rightharpoonup> string) \<Rightarrow> route \<Rightarrow> route" where
  "rename_route name_mapping r =
     (case name_mapping (name r) of
        None \<Rightarrow> r
      | Some new_name \<Rightarrow> if new_name \<noteq> name r then r\<lparr>name := new_name\<rparr> else r)"

text \<open>
  What stops the handler: the two checks that end the run with a message, and the two
  exceptions a boolean \<open>representative\<close> raises (\<open>.strip()\<close> on a \<open>bool\<close> is an
  \<open>AttributeError\<close>, \<open>re.split\<close> on a \<open>bool\<close> a \<open>TypeError\<close>).
\<close>

datatype stop = InvalidPattern | InvalidRange | AttributeError | TypeError

text \<open>
  Step 4, for one route: the adjacency text is split at semicolons and commas, the
  stripped non-empty pieces are mapped and joined with commas; a truthy representative is
  stripped and replaced when it is a key of the mapping.
\<close>

definition adapt_adjacent :: "(string \<rightharpoonup> string) \<Rightarrow> route \<Rightarrow> route" where
  "adapt_adjacent name_mapping r =
     (if adjacentRoutes r = [] then r
      else (let adj_list = split_where is_semi_or_comma (adjacentRoutes r);
                adj_list = map strip (filter (\<lambda>a. strip a \<noteq> []) adj_list);
                new_adj_list = map (get_or name_mapping) adj_list
            in r\<lparr>adjacentRoutes := join '','' new_adj_list\<rparr>))"

definition adapt_representative :: "(string \<rightharpoonup> string) \<Rightarrow> route \<Rightarrow> stop + route" where
  "adapt_representative name_mapping r =
     (case representative r of
        RepFlag b \<Rightarrow> if b then Inl AttributeError else Inr r
      | RepName s \<Rightarrow>
          if s = [] then Inr r
          else (let old_rep = strip s in
                case name_mapping old_rep of
                  None \<Rightarrow> Inr r
                | Some new_name \<Rightarrow> Inr (r\<lparr>representative := RepName new_name\<rparr>)))"

fun adapt_routes :: "(string \<rightharpoonup> string) \<Rightarrow> route list \<Rightarrow> stop + route list" where
  "adapt_routes name_mapping [] = Inr []"
| "adapt_routes name_mapping (r # rs) =
     (case adapt_representative name_mapping (adapt_adjacent name_mapping r) of
        Inl e \<Rightarrow> Inl e
      | Inr r' \<Rightarrow>
          (case adapt_routes name_mapping rs of
             Inl e \<Rightarrow> Inl e
           | Inr rs' \<Rightarrow> Inr (r' # rs')))"

text \<open>Step 5, for one node: a non-empty label is split, mapped piece by piece and joined.\<close>

definition adapt_node :: "(string \<rightharpoonup> string) \<Rightarrow> node \<Rightarrow> node" where
  "adapt_node name_mapping n =
     (if label n = [] then n
      else (let parts = split_where is_semi_or_comma (label n);
                updated = map (\<lambda>p. get_or name_mapping (strip p)) parts
            in n\<lparr>label := join '','' updated\<rparr>))"

text \<open>
  Step 7: the references that are no route name. \<open>add_broken\<close> is the inner loop over the
  pieces of one field, \<open>check_routes\<close> and \<open>check_nodes\<close> the outer loops; \<open>broken_refs\<close> is
  the set built so far.
\<close>

fun add_broken :: "string set \<Rightarrow> string list \<Rightarrow> string set \<Rightarrow> string set" where
  "add_broken all_names [] broken_refs = broken_refs"
| "add_broken all_names (ref # refs) broken_refs =
     (let ref' = strip ref in
      if ref' \<noteq> [] \<and> ref' \<notin> all_names
      then add_broken all_names refs (insert ref' broken_refs)
      else add_broken all_names refs broken_refs)"

fun check_routes :: "string set \<Rightarrow> route list \<Rightarrow> string set \<Rightarrow> stop + string set" where
  "check_routes all_names [] broken_refs = Inr broken_refs"
| "check_routes all_names (r # rs) broken_refs =
     (let b1 = (if adjacentRoutes r = [] then broken_refs
                else add_broken all_names (split_where is_semi_or_comma (adjacentRoutes r)) broken_refs)
      in case representative r of
           RepFlag b \<Rightarrow> if b then Inl TypeError else check_routes all_names rs b1
         | RepName s \<Rightarrow>
             check_routes all_names rs
               (if s = [] then b1
                else add_broken all_names (split_where is_semi_or_comma s) b1))"

fun check_nodes :: "string set \<Rightarrow> node list \<Rightarrow> string set \<Rightarrow> string set" where
  "check_nodes all_names [] broken_refs = broken_refs"
| "check_nodes all_names (n # ns) broken_refs =
     check_nodes all_names ns
       (add_broken all_names (split_where is_semi_or_comma (label n)) broken_refs)"

text \<open>
  Steps 2 to 7 of the handler of the button "Appliquer les changements", for the prefix
  read from the document: the renamed and rewritten routes, the rewritten nodes, and the
  set of unresolved references that the final check reports (as a warning when it is not
  empty). The new maximum is not an argument: none of these steps reads it.
\<close>

definition renumber_steps ::
  "string \<Rightarrow> int \<Rightarrow> bool \<Rightarrow> document \<Rightarrow> stop + (route list \<times> node list option \<times> string set)" where
  "renumber_steps prefix new_min adjust data =
     (let name_mapping = fst (name_mapping_loop prefix (routeNumberGap data)
                                (routingParameterUiVehicleDTOs data) Map.empty new_min);
          renamed = map (rename_route name_mapping) (routingParameterUiVehicleDTOs data)
      in case (if adjust then adapt_routes name_mapping renamed else Inr renamed) of
           Inl e \<Rightarrow> Inl e
         | Inr routes' \<Rightarrow>
             (let nodes' = (if adjust
                            then map_option (map (adapt_node name_mapping)) (routingParameterNodeDTOs data)
                            else routingParameterNodeDTOs data);
                  all_names = set (map name routes')
              in case check_routes all_names routes' {} of
                   Inl e \<Rightarrow> Inl e
                 | Inr broken \<Rightarrow>
                     Inr (routes', nodes',
                          (case nodes' of
                             None \<Rightarrow> broken
                           | Some ns \<Rightarrow> check_nodes all_names ns broken))))"

text \<open>
  The handler: the pattern of the document must parse (else the page stops before the
  button), the new bounds come from two number inputs and are checked, \<open>adjust\<close> is the
  check box. Step 1 writes the new pattern, the steps above do the rest. The result is the
  document as saved together with the reported set. The change log is not modelled.
\<close>

definition bulk_renumber :: "int \<Rightarrow> int \<Rightarrow> bool \<Rightarrow> document \<Rightarrow> stop + (document \<times> string set)" where
  "bulk_renumber new_min new_max adjust data =
     (case parse_pattern (admissibleRoutePatterns data) of
        None \<Rightarrow> Inl InvalidPattern
      | Some (prefix, min_route, max_route) \<Rightarrow>
          if new_min \<ge> new_max \<or> new_min < 0 \<or> new_max < 0 then Inl InvalidRange
          else (case renumber_steps prefix new_min adjust data of
                  Inl e \<Rightarrow> Inl e
                | Inr (routes', nodes', broken) \<Rightarrow>
                    Inr (data\<lparr>admissibleRoutePatterns :=
                                 prefix @ ''|'' @ show_int new_min @ ''|'' @ show_int new_max,
                               routingParameterUiVehicleDTOs := routes',
                               routingParameterNodeDTOs := nodes'\<rparr>,
                         broken)))"

section \<open>Creating a route from scratch (app9.py, test\_creatiob\_from\_scratch.py)\<close>

text \<open>
  \<open>prefix, start_num, end_num = ("MONT", 1000, 1499)\<close>: the admissible range is fixed in
  the source; \<open>end_num\<close> is bound there and never read again.
\<close>

definition prefix0 :: string where
  "prefix0 = ''MONT''"

definition start_num :: int where
  "start_num = 1000"

definition end_num :: int where
  "end_num = 1499"

text \<open>
  The session state of the page: the routes created so far and the numbers they use.
  Of a created route the model keeps the name, the zip text and the coordinate text; the
  random bookkeeping ids and the geometry come from outside the program.
\<close>

record new_route =
  nr_name :: string
  nr_zip :: string
  nr_polygonCoordinates :: string

record session_state =
  routes :: "new_route list"
  used_nums :: "int list"

text \<open>
  \<^verbatim>\<open>
  num = start_num
  while num in st.session_state.used_nums:
      num += route_number_gap
  \<close>
  The loop need not end (a gap of 0 with \<open>start_num\<close> in use), so the result is optional:
  \<open>None\<close> is a loop that runs forever.
\<close>

partial_function (option) next_num :: "int \<Rightarrow> int list \<Rightarrow> int \<Rightarrow> int option" where
  "next_num gap used num = (if num \<in> set used then next_num gap used (num + gap) else Some num)"

text \<open>
  The handler of the button that adds a route: nothing happens without a selected FSA;
  otherwise the next free number is taken, recorded as used, and the route appended.
\<close>

definition add_route :: "int \<Rightarrow> string list \<Rightarrow> string \<Rightarrow> session_state \<Rightarrow> session_state option" where
  "add_route route_number_gap selected_fsas polygon_coords st =
     (if selected_fsas = [] then Some st
      else case next_num route_number_gap (used_nums st) start_num of
        None \<Rightarrow> None
      | Some num \<Rightarrow>
          Some (st\<lparr>used_nums := used_nums st @ [num],
                   routes := routes st @
                     [\<lparr>nr_name = prefix0 @ show_int num,
                       nr_zip = join '','' selected_fsas,
                       nr_polygonCoordinates = polygon_coords\<rparr>]\<rparr>))"

definition session0 :: session_state where
  "session0 = \<lparr>routes = [], used_nums = []\<rparr>"

section \<open>Geometry (the part of shapely the program reads)\<close>

text \<open>
  A geometry is known to the program by its class and, for polygons, by the coordinate
  sequence of the exterior ring (\<open>geom.exterior.coords\<close>); interior rings are never read.
  A multi-part geometry is known by its parts (\<open>geom.geoms\<close>). The type of a coordinate
  is a parameter: the program only formats and parses it.
\<close>

type_synonym 'a ring = "('a \<times> 'a) list"

datatype 'a geometry =
    Polygon "'a ring"
  | MultiPolygon "'a ring list"
  | Point "'a \<times> 'a"
  | LineString "'a ring"
  | MultiPoint "('a \<times> 'a) list"
  | MultiLineString "'a ring list"
  | GeometryCollection "'a geometry list"

text \<open>\<open>getattr(geom, "geoms", [])\<close>: the parts of a multi-part geometry, else nothing.\<close>

fun geoms :: "'a geometry \<Rightarrow> 'a geometry list" where
  "geoms (MultiPolygon rs) = map Polygon rs"
| "geoms (MultiPoint ps) = map Point ps"
| "geoms (MultiLineString ls) = map LineString ls"
| "geoms (GeometryCollection gs) = gs"
| "geoms _ = []"

text \<open>
  The loop of \<open>normalize_geom\<close> in Home.py over the members of a collection; \<open>polys\<close> is
  the list built so far (each polygon by its exterior ring).
\<close>

fun collect_polys :: "'a geometry list \<Rightarrow> 'a ring list \<Rightarrow> 'a ring list" where
  "collect_polys [] polys = polys"
| "collect_polys (Polygon r # gs) polys = collect_polys gs (polys @ [r])"
| "collect_polys (MultiPolygon rs # gs) polys = collect_polys gs (polys @ rs)"
| "collect_polys (_ # gs) polys = collect_polys gs polys"

fun is_polygonal :: "'a geometry \<Rightarrow> bool" where
  "is_polygonal (Polygon _) = True"
| "is_polygonal (MultiPolygon _) = True"
| "is_polygonal _ = False"

text \<open>\<open>normalize_geom\<close> of Home.py; \<open>None\<close> is Python's \<open>None\<close>.\<close>

definition normalize_geom :: "'a geometry option \<Rightarrow> 'a geometry option" where
  "normalize_geom geom =
     (case geom of
        None \<Rightarrow> None
      | Some g \<Rightarrow>
          if is_polygonal g then Some g
          else (let polys = collect_polys (geoms g) [] in
                if polys = [] then None
                else if length polys = 1 then Some (Polygon (polys ! 0))
                else Some (MultiPolygon polys)))"

text \<open>\<open>normalize_geom\<close> of the page "Restructuration par FSA".\<close>

definition normalize_geom_fsa :: "'a geometry option \<Rightarrow> 'a geometry option" where
  "normalize_geom_fsa geom =
     (case geom of
        None \<Rightarrow> None
      | Some g \<Rightarrow> if is_polygonal g then Some g else None)"

section \<open>The coordinate text (Home.py)\<close>

text \<open>
  The rendering of a number (\<open>f"{x:.8f}"\<close>) and its parsing (\<open>float(s)\<close>, \<open>None\<close> for a
  \<open>ValueError\<close>) belong to Python; the program is modelled for any pair of them.
\<close>

definition CR :: char where "CR = CHR 0x0D"
definition LF :: char where "LF = CHR 0x0A"

definition point_text :: "('a \<Rightarrow> string) \<Rightarrow> 'a \<times> 'a \<Rightarrow> string" where
  "point_text fmt p = fmt (fst p) @ '','' @ fmt (snd p) @ '',0''"

definition ring_text :: "('a \<Rightarrow> string) \<Rightarrow> 'a ring \<Rightarrow> string" where
  "ring_text fmt coords = join [CR, LF] (map (point_text fmt) coords)"

definition polygon_to_text :: "('a \<Rightarrow> string) \<Rightarrow> 'a geometry \<Rightarrow> string" where
  "polygon_to_text fmt geom =
     join [CR, LF, CR, LF]
       (case geom of
          Polygon coords \<Rightarrow> [ring_text fmt coords]
        | MultiPolygon ps \<Rightarrow> map (ring_text fmt) ps
        | _ \<Rightarrow> [])"

definition is_linebreak :: "char \<Rightarrow> bool" where
  "is_linebreak c = (c \<in> set [CHR 0x0A, CHR 0x0B, CHR 0x0C, CHR 0x0D, CHR 0x1C, CHR 0x1D,
     CHR 0x1E, CHR 0x85])"

fun splitlines_acc :: "string \<Rightarrow> string \<Rightarrow> string list" where
  "splitlines_acc acc [] = (if acc = [] then [] else [acc])"
| "splitlines_acc acc [c] = (if is_linebreak c then [acc] else [acc @ [c]])"
| "splitlines_acc acc (c # d # cs) =
     (if c = CR \<and> d = LF then acc # splitlines_acc [] cs
      else if is_linebreak c then acc # splitlines_acc [] (d # cs)
      else splitlines_acc (acc @ [c]) (d # cs))"

definition splitlines :: "string \<Rightarrow> string list" where
  "splitlines s = splitlines_acc [] s"

text \<open>The piece \<open>\r?\n\<close> of the pattern, matched at the start of \<open>s\<close>: what follows it.\<close>

definition match_newline :: "string \<Rightarrow> string option" where
  "match_newline s =
     (case s of
        [] \<Rightarrow> None
      | c # t \<Rightarrow>
          if c = LF then Some t
          else if c = CR then (case t of [] \<Rightarrow> None | d # u \<Rightarrow> if d = LF then Some u else None)
          else None)"

text \<open>
  The pattern \<open>\r?\n\s*\r?\n\<close> matched at the start of \<open>s\<close>: what follows the match. After
  the first line end, \<open>\s*\<close> takes the whole run of white space \<open>w\<close> and gives back
  characters until a line feed can end the match, so the match ends after the last line
  feed of \<open>w\<close>, and there is none when \<open>w\<close> has no line feed.
\<close>

definition match_blank :: "string \<Rightarrow> string option" where
  "match_blank s =
     (case match_newline s of
        None \<Rightarrow> None
      | Some t \<Rightarrow>
          (let w = takeWhile is_space t; rest = dropWhile is_space t in
           if LF \<in> set w then Some (rev (takeWhile (\<lambda>c. c \<noteq> LF) (rev w)) @ rest)
           else None))"

lemma match_newline_shorter: "match_newline s = Some t \<Longrightarrow> length t < length s"
  by (auto simp: match_newline_def split: list.splits if_splits)

lemma match_blank_shorter:
  assumes "match_blank s = Some r"
  shows "length r < length s"
proof -
  from assms obtain t where t: "match_newline s = Some t"
    and r: "r = rev (takeWhile (\<lambda>c. c \<noteq> LF) (rev (takeWhile is_space t))) @ dropWhile is_space t"
    by (auto simp: match_blank_def Let_def split: option.splits if_splits)
  have "length (takeWhile (\<lambda>c. c \<noteq> LF) (rev (takeWhile is_space t))) \<le> length (takeWhile is_space t)"
    using length_takeWhile_le[of "\<lambda>c. c \<noteq> LF" "rev (takeWhile is_space t)"] by simp
  moreover have "length (takeWhile is_space t) + length (dropWhile is_space t) = length t"
    by (metis length_append takeWhile_dropWhile_id)
  ultimately have "length r \<le> length t" by (simp add: r)
  with match_newline_shorter[OF t] show ?thesis by simp
qed

function blank_split :: "string \<Rightarrow> string \<Rightarrow> string list" where
  "blank_split acc [] = [acc]"
| "blank_split acc (c # cs) =
     (case match_blank (c # cs) of
        Some rest \<Rightarrow> acc # blank_split [] rest
      | None \<Rightarrow> blank_split (acc @ [c]) cs)"
  by pat_completeness auto
termination
  by (relation "measure (\<lambda>(acc, s). length s)") (auto dest: match_blank_shorter)

text \<open>
  \<open>Polygon(coords)\<close> of shapely, for at least three coordinates: the ring is closed when
  it is not, and a ring of exactly three coordinates always receives the first one again.
\<close>

definition close_ring :: "'a ring \<Rightarrow> 'a ring" where
  "close_ring coords =
     (case coords of
        [] \<Rightarrow> []
      | p # _ \<Rightarrow> if length coords = 3 \<or> p \<noteq> last coords then coords @ [p] else coords)"

record 'a parsed =
  ret_parts_latlon :: "'a ring list"
  ret_shapely :: "'a geometry"

text \<open>\<open>[f.strip() for f in line.split(",") if f.strip()]\<close>\<close>

definition line_fields :: "string \<Rightarrow> string list" where
  "line_fields line = map strip (filter (\<lambda>f. strip f \<noteq> []) (split_where is_comma line))"

text \<open>\<open>[ln.strip() for ln in part.splitlines() if ln.strip()]\<close>\<close>

definition part_lines :: "string \<Rightarrow> string list" where
  "part_lines part = map strip (filter (\<lambda>ln. strip ln \<noteq> []) (splitlines part))"

text \<open>
  The loop over the lines of one part: a line with fewer than two fields, or whose first
  or second field raises \<open>ValueError\<close>, is passed over (\<open>continue\<close>).
\<close>

fun parse_lines ::
  "(string \<Rightarrow> 'a option) \<Rightarrow> string list \<Rightarrow> 'a ring \<Rightarrow> 'a ring \<Rightarrow> 'a ring \<times> 'a ring" where
  "parse_lines pf [] coords_latlon coords_lonlat = (coords_latlon, coords_lonlat)"
| "parse_lines pf (line # lines) coords_latlon coords_lonlat =
     (let fields = line_fields line in
      if length fields < 2 then parse_lines pf lines coords_latlon coords_lonlat
      else case pf (fields ! 0) of
        None \<Rightarrow> parse_lines pf lines coords_latlon coords_lonlat
      | Some lon \<Rightarrow>
          (case pf (fields ! 1) of
             None \<Rightarrow> parse_lines pf lines coords_latlon coords_lonlat
           | Some lat \<Rightarrow>
               parse_lines pf lines (coords_latlon @ [(lat, lon)]) (coords_lonlat @ [(lon, lat)])))"

text \<open>The loop over the parts: a part with fewer than three points adds nothing.\<close>

fun parse_parts ::
  "(string \<Rightarrow> 'a option) \<Rightarrow> string list \<Rightarrow> 'a ring list \<Rightarrow> 'a ring list
     \<Rightarrow> 'a ring list \<times> 'a ring list" where
  "parse_parts pf [] parts_latlon shapely_parts = (parts_latlon, shapely_parts)"
| "parse_parts pf (part # parts) parts_latlon shapely_parts =
     (let (coords_latlon, coords_lonlat) = parse_lines pf (part_lines part) [] [] in
      if length coords_lonlat \<ge> 3
      then parse_parts pf parts (parts_latlon @ [coords_latlon])
             (shapely_parts @ [close_ring coords_lonlat])
      else parse_parts pf parts parts_latlon shapely_parts)"

definition parse_polygon_text :: "(string \<Rightarrow> 'a option) \<Rightarrow> string \<Rightarrow> 'a parsed option" where
  "parse_polygon_text pf coords_text =
     (if coords_text = [] \<or> strip coords_text = [] then None
      else (let parts_raw = blank_split [] (strip coords_text);
                (parts_latlon, shapely_parts) = parse_parts pf parts_raw [] []
            in if shapely_parts = [] then None
               else Some \<lparr>ret_parts_latlon = parts_latlon,
                           ret_shapely = (if length shapely_parts = 1 then Polygon (shapely_parts ! 0)
                                        else MultiPolygon shapely_parts)\<rparr>))"

section \<open>The map page (Home.py)\<close>

text \<open>
  What the page takes from outside the program: the rendering and parsing of numbers,
  \<open>str.upper\<close>, and the boundary data set, read through
  \<open>gdf[gdf["CFSAUID"].isin(codes)].unary_union\<close> (\<open>None\<close> when no row is selected).
\<close>

record 'a env =
  fmt8 :: "'a \<Rightarrow> string"
  py_float :: "string \<Rightarrow> 'a option"
  upper :: "string \<Rightarrow> string"
  unary_union :: "string list \<Rightarrow> 'a geometry option"

text \<open>The truth value of a geometry (\<open>if merged_norm:\<close>): it is not empty.\<close>

fun non_empty :: "'a geometry \<Rightarrow> bool" where
  "non_empty (Polygon coords) = (coords \<noteq> [])"
| "non_empty (MultiPolygon ps) = (\<exists>p\<in>set ps. p \<noteq> [])"
| "non_empty (Point _) = True"
| "non_empty (LineString coords) = (coords \<noteq> [])"
| "non_empty (MultiPoint ps) = (ps \<noteq> [])"
| "non_empty (MultiLineString ls) = (\<exists>l\<in>set ls. l \<noteq> [])"
| "non_empty (GeometryCollection gs) = (\<exists>g\<in>set gs. non_empty g)"

text \<open>
  An entry of \<open>polygons\<close>: the route and the preference (by their positions in the
  document), the names read when the page was built, and the parsed geometry.
\<close>

record 'a polygon_entry =
  route_obj :: nat
  pref_obj :: nat
  route_name :: string
  zone_name :: string
  pe_zip :: string
  pe_parsed :: "'a parsed"

definition pref_entries ::
  "(string \<Rightarrow> 'a option) \<Rightarrow> nat \<Rightarrow> route \<Rightarrow> 'a polygon_entry list" where
  "pref_entries pf ridx route =
     concat (map (\<lambda>(pidx, pref).
        case routingParameterUiPolygonDTO pref of
          None \<Rightarrow> []
        | Some poly_data \<Rightarrow>
            (case parse_polygon_text pf (polygonCoordinates poly_data) of
               None \<Rightarrow> []
             | Some parsed \<Rightarrow>
                 [\<lparr>route_obj = ridx, pref_obj = pidx, route_name = name route,
                   zone_name = pd_name poly_data, pe_zip = zip_text pref, pe_parsed = parsed\<rparr>]))
       (enumerate 0 (routingParameterUiVehiclePreferenceDTOs route)))"

definition build_polygons_from_data ::
  "(string \<Rightarrow> 'a option) \<Rightarrow> document \<Rightarrow> 'a polygon_entry list" where
  "build_polygons_from_data pf data =
     concat (map (\<lambda>(ridx, route). pref_entries pf ridx route)
       (enumerate 0 (routingParameterUiVehicleDTOs data)))"

text \<open>
  \<open>re.match(rf"^{prefix}(\d+)$", new_route_name)\<close> and \<open>int(match.group(1))\<close>: the prefix,
  then digits to the end of the name, or to a single line feed that ends it.
\<close>

definition match_route_name :: "string \<Rightarrow> string \<Rightarrow> int option" where
  "match_route_name prefix new_route_name =
     (if take (length prefix) new_route_name \<noteq> prefix then None
      else (let rest = drop (length prefix) new_route_name;
                digits = takeWhile is_digit rest;
                tail = dropWhile is_digit rest
            in if digits \<noteq> [] \<and> (tail = [] \<or> tail = [LF]) then Some (int (read_nat digits))
               else None))"

text \<open>\<open>[z.strip().upper() for z in text.split(",") if z.strip()]\<close>\<close>

definition zip_list :: "(string \<Rightarrow> string) \<Rightarrow> string \<Rightarrow> string list" where
  "zip_list up text = map (\<lambda>z. up (strip z)) (filter (\<lambda>z. strip z \<noteq> []) (split_where is_comma text))"

definition zips_of_route :: "(string \<Rightarrow> string) \<Rightarrow> route \<Rightarrow> string list" where
  "zips_of_route up route =
     concat (map (\<lambda>p. zip_list up (zip_text p)) (routingParameterUiVehiclePreferenceDTOs route))"

text \<open>The three assignments that open the accepted branch.\<close>

definition set_zone_name :: "string \<Rightarrow> preference \<Rightarrow> preference" where
  "set_zone_name new_zone_name pref =
     pref\<lparr>routingParameterUiPolygonDTO :=
            map_option (\<lambda>pd. pd\<lparr>pd_name := new_zone_name\<rparr>) (routingParameterUiPolygonDTO pref)\<rparr>"

definition rename_block :: "nat \<Rightarrow> string \<Rightarrow> string \<Rightarrow> string \<Rightarrow> route \<Rightarrow> route" where
  "rename_block pidx new_route_name new_zone_name new_adj route =
     route\<lparr>name := new_route_name,
            routingParameterUiVehiclePreferenceDTOs :=
              (routingParameterUiVehiclePreferenceDTOs route)
                [pidx := set_zone_name new_zone_name (routingParameterUiVehiclePreferenceDTOs route ! pidx)],
            adjacentRoutes := new_adj\<rparr>"

text \<open>
  The merged and normalised geometry of a set of codes as coordinate text, when there is
  one: rows selected, the normalised union present and not empty.
\<close>

definition merged_text :: "'a env \<Rightarrow> string list \<Rightarrow> string option" where
  "merged_text e codes =
     (case unary_union e codes of
        None \<Rightarrow> None
      | Some merged \<Rightarrow>
          (case normalize_geom (Some merged) of
             None \<Rightarrow> None
           | Some merged_norm \<Rightarrow>
               if non_empty merged_norm then Some (polygon_to_text (fmt8 e) merged_norm) else None))"

text \<open>
  Removal of codes from the selected preference: the codes that remain are sorted and
  joined, and the polygon recomputed when there is a geometry for them; when none
  remains the preference is removed from the list of the route.
\<close>

definition remove_block :: "'a env \<Rightarrow> nat \<Rightarrow> string \<Rightarrow> route \<Rightarrow> route" where
  "remove_block e pidx zip_to_remove route =
     (if zip_to_remove = [] then route
      else (let prefs_list = routingParameterUiVehiclePreferenceDTOs route;
                pref = prefs_list ! pidx;
                to_remove = zip_list (upper e) zip_to_remove;
                curr_pref_zips = zip_list (upper e) (zip_text pref);
                remaining = sort (remdups (filter (\<lambda>z. z \<notin> set to_remove) curr_pref_zips))
            in if remaining \<noteq> []
               then (let pref1 = pref\<lparr>zip_text := join '','' remaining\<rparr>;
                         pref2 = (case merged_text e remaining of
                                    None \<Rightarrow> pref1
                                  | Some txt \<Rightarrow>
                                      pref1\<lparr>routingParameterUiPolygonDTO :=
                                        map_option (\<lambda>pd. pd\<lparr>polygonCoordinates := txt\<rparr>)
                                          (routingParameterUiPolygonDTO pref1)\<rparr>)
                     in route\<lparr>routingParameterUiVehiclePreferenceDTOs := prefs_list[pidx := pref2]\<rparr>)
               else route\<lparr>routingParameterUiVehiclePreferenceDTOs := remove1 pref prefs_list\<rparr>))"

text \<open>
  \<^verbatim>\<open>
  i = 2
  while f"{base_zone_name}{i}" in existing_names:
      i += 1
  \<close>
\<close>

lemma digit_val_digit_char: "d < 10 \<Longrightarrow> digit_val (digit_char d) = d"
proof -
  assume "d < 10"
  then consider "d = 0" | "d = 1" | "d = 2" | "d = 3" | "d = 4" | "d = 5" | "d = 6" | "d = 7"
    | "d = 8" | "d = 9"
    by atomize_elim arith
  then show ?thesis
    by cases (simp_all add: digit_val_def digit_char_def)
qed

lemma read_nat_snoc: "read_nat (s @ [c]) = read_nat s * 10 + digit_val c"
  by (simp add: read_nat_def)

lemma read_nat_show_nat: "read_nat (show_nat n) = n"
proof (induction n rule: show_nat.induct)
  case (1 n)
  show ?case
  proof (cases "n < 10")
    case True
    then show ?thesis
      by (subst show_nat.simps) (simp add: read_nat_def digit_val_digit_char)
  next
    case False
    with 1 show ?thesis
      by (subst show_nat.simps) (simp add: read_nat_snoc digit_val_digit_char)
  qed
qed

lemma show_nat_inj: "show_nat m = show_nat n \<Longrightarrow> m = n"
  by (metis read_nat_show_nat)

lemma finite_suffixes: "finite {j. base @ show_nat j \<in> set existing}"
proof -
  have "inj (\<lambda>j. base @ show_nat j)"
    by (rule injI) (simp add: show_nat_inj)
  then have "finite ((\<lambda>j. base @ show_nat j) -` set existing)"
    by (intro finite_vimageI) simp_all
  then show ?thesis by (simp add: vimage_def)
qed

function unique_index :: "string \<Rightarrow> string list \<Rightarrow> nat \<Rightarrow> nat" where
  "unique_index base_zone_name existing_names i =
     (if base_zone_name @ show_nat i \<in> set existing_names
      then unique_index base_zone_name existing_names (i + 1)
      else i)"
  by pat_completeness auto
termination
proof (relation "measure (\<lambda>(base, existing, i). card {j. i \<le> j \<and> base @ show_nat j \<in> set existing})")
  show "wf (measure (\<lambda>(base, existing, i). card {j. i \<le> j \<and> base @ show_nat j \<in> set existing}))"
    by simp
next
  fix base_zone_name :: string and existing_names :: "string list" and i :: nat
  assume a: "base_zone_name @ show_nat i \<in> set existing_names"
  let ?S = "\<lambda>k. {j. k \<le> j \<and> base_zone_name @ show_nat j \<in> set existing_names}"
  have fin: "finite (?S i)"
    by (rule finite_subset[OF _ finite_suffixes[of base_zone_name existing_names]]) auto
  have "i \<in> ?S i" using a by simp
  moreover have "i \<notin> ?S (i + 1)" by simp
  moreover have "?S (i + 1) \<subseteq> ?S i" by auto
  ultimately have "?S (i + 1) \<subset> ?S i" by blast
  then have "card (?S (i + 1)) < card (?S i)"
    using fin by (rule psubset_card_mono[rotated])
  then show "((base_zone_name, existing_names, i + 1), (base_zone_name, existing_names, i))
       \<in> measure (\<lambda>(base, existing, i). card {j. i \<le> j \<and> base @ show_nat j \<in> set existing})"
    by simp
qed

declare unique_index.simps [simp del]

definition unique_zone_name :: "string \<Rightarrow> string list \<Rightarrow> string" where
  "unique_zone_name base_zone_name existing_names =
     (if base_zone_name \<in> set existing_names
      then base_zone_name @ show_nat (unique_index base_zone_name existing_names 2)
      else base_zone_name)"

text \<open>
  \<open>p.get("routingParameterUiPolygonDTO", {}).get("name", "")\<close> over the preferences of the
  route.
\<close>

definition existing_names_of :: "route \<Rightarrow> string list" where
  "existing_names_of route =
     map (\<lambda>p. case routingParameterUiPolygonDTO p of None \<Rightarrow> [] | Some pd \<Rightarrow> pd_name pd)
       (routingParameterUiVehiclePreferenceDTOs route)"

text \<open>
  Addition of codes: the codes not yet in the route get one new preference, appended to
  the route, when there is a geometry for them; its zone name is the name of the selected
  zone as read when the page was built, stripped and made unique among the names of the
  route. The two identifiers are random in the source and are arguments here.
\<close>

definition add_block ::
  "'a env \<Rightarrow> document \<Rightarrow> string \<Rightarrow> string list \<Rightarrow> string \<Rightarrow> string \<times> string \<Rightarrow> route \<Rightarrow> route" where
  "add_block e data found_zone_name zips_in_route zip_to_add ids route =
     (if zip_to_add = [] then route
      else (let to_add = zip_list (upper e) zip_to_add;
                to_create = filter (\<lambda>z. z \<notin> set zips_in_route) to_add
            in if to_create = [] then route
               else (case merged_text e to_create of
                       None \<Rightarrow> route
                     | Some poly_text \<Rightarrow>
                         (let base_zone_name = strip found_zone_name;
                              existing_names = existing_names_of route;
                              new_zone_name_unique = unique_zone_name base_zone_name existing_names;
                              new_pref = \<lparr>pref_id = fst ids,
                                          routingParameterVehicleId = route_id route,
                                          zip_text = join '','' (sort to_create),
                                          routingParameterUiPolygonDTO =
                                            Some \<lparr>pd_id = snd ids,
                                                  pd_name = new_zone_name_unique,
                                                  polygonCoordinates = poly_text,
                                                  pd_routingParameterId =
                                                    (case routingParameterId route of
                                                       None \<Rightarrow> doc_id data
                                                     | Some x \<Rightarrow> x)\<rparr>\<rparr>
                          in route\<lparr>routingParameterUiVehiclePreferenceDTOs :=
                                     routingParameterUiVehiclePreferenceDTOs route @ [new_pref]\<rparr>))))"

text \<open>What the handler answers instead of saving.\<close>

datatype refusal = NoPattern | NoPolygonFound | BadName | OutOfRange | NameTaken

text \<open>
  The handler of "Appliquer les changements" for the entry \<open>k\<close> of \<open>polygons\<close> (the one
  found under the click): the new route name is checked against the pattern, the range
  and the names in use; then the route of the entry, and no other, is rewritten by the
  three blocks, and the document saved.
\<close>

definition apply_changes ::
  "'a env \<Rightarrow> document \<Rightarrow> nat \<Rightarrow> string \<Rightarrow> string \<Rightarrow> string \<Rightarrow> string \<Rightarrow> string
     \<Rightarrow> string \<times> string \<Rightarrow> refusal + document" where
  "apply_changes e data k new_route_name new_zone_name new_adj zip_to_remove zip_to_add ids =
     (case parse_pattern (admissibleRoutePatterns data) of
        None \<Rightarrow> Inl NoPattern
      | Some (prefix, min_route, max_route) \<Rightarrow>
          (let polygons = build_polygons_from_data (py_float e) data in
           if k \<ge> length polygons then Inl NoPolygonFound
           else (let found = polygons ! k;
                     routes = routingParameterUiVehicleDTOs data;
                     route = routes ! route_obj found;
                     zips_in_route = zips_of_route (upper e) route;
                     all_route_names = map route_name polygons
                 in case match_route_name prefix new_route_name of
                      None \<Rightarrow> Inl BadName
                    | Some route_num \<Rightarrow>
                        if \<not> (min_route \<le> route_num \<and> route_num \<le> max_route) then Inl OutOfRange
                        else if new_route_name \<noteq> route_name found
                                \<and> new_route_name \<in> set all_route_names then Inl NameTaken
                        else (let r1 = rename_block (pref_obj found) new_route_name new_zone_name new_adj route;
                                  r2 = remove_block e (pref_obj found) zip_to_remove r1;
                                  r3 = add_block e data (zone_name found) zips_in_route zip_to_add ids r2
                              in Inr (data\<lparr>routingParameterUiVehicleDTOs :=
                                             routes[route_obj found := r3]\<rparr>)))))"

section \<open>Decimal numbers\<close>

text \<open>
  A model of the two Python built-ins on exact rationals, used where a concrete
  coordinate is needed. \<open>fmt8_rat\<close> is \<open>f"{x:.8f}"\<close>: the value rounded to eight decimals,
  ties to even, with the sign of \<open>x\<close>. \<open>float_dec\<close> is \<open>float(s)\<close> on plain decimal
  literals (sign, digits, point, digits) and gives the exact value; the other spellings
  Python accepts (exponents, \<open>inf\<close>, \<open>nan\<close>, underscores) are not in the fragment, and the
  final rounding to a binary double is not modelled.
\<close>

definition round_half_even :: "rat \<Rightarrow> int" where
  "round_half_even y =
     (let f = \<lfloor>y\<rfloor>; r = y - of_int f in
      if r < 1 / 2 then f else if 1 / 2 < r then f + 1 else if even f then f else f + 1)"

definition pad_left :: "nat \<Rightarrow> string \<Rightarrow> string" where
  "pad_left n s = replicate (n - length s) (CHR ''0'') @ s"

definition fmt8_rat :: "rat \<Rightarrow> string" where
  "fmt8_rat x =
     (let n = nat (round_half_even (\<bar>x\<bar> * 10 ^ 8)) in
      (if x < 0 then ''-'' else []) @ show_nat (n div 10 ^ 8) @ ''.''
        @ pad_left 8 (show_nat (n mod 10 ^ 8)))"

definition float_dec :: "string \<Rightarrow> rat option" where
  "float_dec s =
     (let negative = (s \<noteq> [] \<and> hd s = CHR ''-'');
          body = (if s \<noteq> [] \<and> (hd s = CHR ''-'' \<or> hd s = CHR ''+'') then tl s else s);
          int_part = takeWhile is_digit body;
          rest = dropWhile is_digit body;
          sign = (if negative then - 1 else 1)
      in case rest of
           [] \<Rightarrow> if int_part = [] then None else Some (sign * of_nat (read_nat int_part))
         | c # frac_part \<Rightarrow>
             if c = CHR ''.'' \<and> (\<forall>d\<in>set frac_part. is_digit d)
                \<and> (int_part \<noteq> [] \<or> frac_part \<noteq> [])
             then Some (sign * (of_nat (read_nat int_part)
                                + of_nat (read_nat frac_part) / 10 ^ length frac_part))
             else None)"

text \<open>\<open>str.upper\<close> on the letters a to z.\<close>

definition ascii_upper :: "string \<Rightarrow> string" where
  "ascii_upper s =
     map (\<lambda>c. case map_of (zip ''abcdefghijklmnopqrstuvwxyz'' ''ABCDEFGHIJKLMNOPQRSTUVWXYZ'') c of
                 None \<Rightarrow> c | Some u \<Rightarrow> u) s"

text \<open>
  A boundary data set of two areas: H9S is the unit square, H9T the square to its right;
  their union is the rectangle that covers both.
\<close>

definition two_squares :: "string list \<Rightarrow> rat geometry option" where
  "two_squares codes =
     (if ''H9S'' \<in> set codes \<and> ''H9T'' \<in> set codes
        then Some (Polygon [(0, 0), (2, 0), (2, 1), (0, 1), (0, 0)])
      else if ''H9S'' \<in> set codes then Some (Polygon [(0, 0), (1, 0), (1, 1), (0, 1), (0, 0)])
      else if ''H9T'' \<in> set codes then Some (Polygon [(1, 0), (2, 0), (2, 1), (1, 1), (1, 0)])
      else None)"

definition env0 :: "rat env" where
  "env0 = \<lparr>fmt8 = fmt8_rat, py_float = float_dec, upper = ascii_upper, unary_union = two_squares\<rparr>"

section \<open>Notions used in the statements\<close>

text \<open>A route whose \<open>representative\<close> is the boolean \<open>true\<close>.\<close>

definition flagged :: "route \<Rightarrow> bool" where
  "flagged r = (representative r = RepFlag True)"

text \<open>
  The renumbering in the words of the specification: going through the names in order,
  every name that matches the prefix takes the next number, starting at the new minimum
  and advancing by the gap; the other names stay.
\<close>

fun renumber_names :: "string \<Rightarrow> int \<Rightarrow> int \<Rightarrow> string list \<Rightarrow> string list" where
  "renumber_names prefix current gap [] = []"
| "renumber_names prefix current gap (n # ns) =
     (if matches_prefix prefix n
      then (prefix @ show_int current) # renumber_names prefix (current + gap) gap ns
      else n # renumber_names prefix current gap ns)"

abbreviation matching :: "string \<Rightarrow> route list \<Rightarrow> string list" where
  "matching prefix rs \<equiv> filter (matches_prefix prefix) (map name rs)"

text \<open>Documents for the scenarios: only the fields the renumbering reads are filled.\<close>

definition mk_route :: "string \<Rightarrow> string \<Rightarrow> rep_value \<Rightarrow> route" where
  "mk_route n adj rep = \<lparr>route_id = [], routingParameterId = None, name = n, adjacentRoutes = adj,
     representative = rep, routingParameterUiVehiclePreferenceDTOs = []\<rparr>"

definition mk_document :: "string \<Rightarrow> int \<Rightarrow> route list \<Rightarrow> node list option \<Rightarrow> document" where
  "mk_document pat gap rs ns = \<lparr>doc_id = [], admissibleRoutePatterns = pat, routeNumberGap = gap,
     routingParameterUiVehicleDTOs = rs, routingParameterNodeDTOs = ns\<rparr>"

definition scenario_doc :: document where
  "scenario_doc = mk_document ''MONT|1500|1999'' 5
     [mk_route ''MONT1500'' [] (RepName ''MONT1500''),
      mk_route ''MONT1505'' ''MONT1500'' (RepName ''MONT1500''),
      mk_route ''MONT1510'' ''MONT1505'' (RepName ''MONT1500'')]
     (Some [\<lparr>node_id = ''1'', label = ''MONT1500''\<rparr>, \<lparr>node_id = ''2'', label = ''MONT1505''\<rparr>,
            \<lparr>node_id = ''3'', label = ''MONT1510''\<rparr>])"

definition shuffled_doc :: document where
  "shuffled_doc = mk_document ''MONT|1500|1999'' 5
     [mk_route ''MONT1990'' [] (RepName ''MONT1990''),
      mk_route ''DEPOT'' ''MONT1990'' (RepName ''MONT1990''),
      mk_route ''MONT1500'' ''DEPOT'' (RepName ''MONT1990'')]
     None"

text \<open>A document in which two routes bear the same name.\<close>

definition twin_doc :: document where
  "twin_doc = mk_document ''MONT|1500|1999'' 5
     [mk_route ''MONT1500'' [] (RepName ''MONT1500''),
      mk_route ''MONT1500'' ''MONT1500'' (RepName ''MONT1500'')]
     None"

text \<open>
  The references of a document as the final check reads them: the stripped, non-empty
  pieces of a text split at semicolons and commas; those of a route (adjacency, then a
  representative that is a string); those of the nodes (labels). The unresolved ones are
  those that are no route name.
\<close>

definition tokens :: "string \<Rightarrow> string list" where
  "tokens s = filter (\<lambda>t. t \<noteq> []) (map strip (split_where is_semi_or_comma s))"

definition rep_refs :: "route \<Rightarrow> string list" where
  "rep_refs r = (case representative r of RepName s \<Rightarrow> tokens s | RepFlag b \<Rightarrow> [])"

definition route_refs :: "route \<Rightarrow> string list" where
  "route_refs r = tokens (adjacentRoutes r) @
     (case representative r of RepName s \<Rightarrow> tokens s | RepFlag b \<Rightarrow> [])"

definition node_refs :: "node list option \<Rightarrow> string list" where
  "node_refs ns = (case ns of None \<Rightarrow> [] | Some ns \<Rightarrow> concat (map (\<lambda>n. tokens (label n)) ns))"

definition unresolved :: "route list \<Rightarrow> node list option \<Rightarrow> string set" where
  "unresolved rs ns =
     set (filter (\<lambda>t. t \<notin> set (map name rs)) (concat (map route_refs rs) @ node_refs ns))"

text \<open>A representative that is a string holds one reference: no semicolon, no comma.\<close>

definition single_rep :: "route \<Rightarrow> bool" where
  "single_rep r = (case representative r of
                     RepName s \<Rightarrow> \<forall>c\<in>set s. \<not> is_semi_or_comma c
                   | RepFlag b \<Rightarrow> True)"

text \<open>
  A clean reference: not empty, no white space at either end, no semicolon and no comma.
  A good mapping yields clean names only and has no entry for the empty string.
\<close>

definition clean :: "string \<Rightarrow> bool" where
  "clean t = (t \<noteq> [] \<and> \<not> is_space (hd t) \<and> \<not> is_space (last t)
               \<and> (\<forall>c\<in>set t. \<not> is_semi_or_comma c))"

definition good_map :: "(string \<rightharpoonup> string) \<Rightarrow> bool" where
  "good_map M = ((\<forall>k v. M k = Some v \<longrightarrow> clean v) \<and> M [] = None)"

definition dangling_doc :: document where
  "dangling_doc = mk_document ''MONT|1500|1999'' 5
     [mk_route ''MONT1500'' ''MONT2000'' (RepName ''MONT1500'')] None"

definition ghost_doc :: document where
  "ghost_doc = mk_document ''MONT|1500|1999'' 5
     [mk_route ''MONT1500'' [] (RepName ''MONT1500''),
      mk_route ''MONT1505'' ''MONT1500; GHOST'' (RepName ''MONT1500'')]
     (Some [\<lparr>node_id = ''1'', label = ''MONT1500''\<rparr>, \<lparr>node_id = ''2'', label = ''MONT1505''\<rparr>])"

definition flag_doc :: document where
  "flag_doc = mk_document ''MONT|1500|1520'' 1
     [mk_route ''MONT1500'' [] (RepFlag True),
      mk_route ''MONT1501'' [] (RepFlag False)]
     None"

text \<open>
  A run of additions on one route: every step is the addition block with its own
  selected zone name, codes of the route, codes to add and identifiers.
\<close>

definition add_preferences ::
  "'a env \<Rightarrow> document \<Rightarrow> (string \<times> string list \<times> string \<times> string \<times> string) list \<Rightarrow> route \<Rightarrow> route" where
  "add_preferences e data ops r =
     foldl (\<lambda>r (z, zir, zta, ids). add_block e data z zir zta ids r) r ops"

text \<open>A document for the map page: two routes, the first with two zones.\<close>

definition square_text :: string where
  "square_text = ''0,0,0'' @ [CR, LF] @ ''1,0,0'' @ [CR, LF] @ ''1,1,0'' @ [CR, LF] @ ''0,1,0''"

definition zone_pref :: "string \<Rightarrow> string \<Rightarrow> preference" where
  "zone_pref zone codes =
     \<lparr>pref_id = [], routingParameterVehicleId = [], zip_text = codes,
      routingParameterUiPolygonDTO =
        Some \<lparr>pd_id = [], pd_name = zone, polygonCoordinates = square_text,
              pd_routingParameterId = []\<rparr>\<rparr>"

definition home_doc :: document where
  "home_doc = mk_document ''MONT|1500|1999'' 5
     [(mk_route ''MONT1500'' [] (RepName ''MONT1500''))
        \<lparr>routingParameterUiVehiclePreferenceDTOs := [zone_pref ''Zone'' ''H9X'', zone_pref ''Zone2'' ''H9W'']\<rparr>,
      mk_route ''MONT1505'' ''MONT1500'' (RepName ''MONT1500'')]
     None"

definition zone_route :: route where
  "zone_route = (mk_route ''MONT1500'' [] (RepName ''MONT1500''))
     \<lparr>routingParameterUiVehiclePreferenceDTOs := [zone_pref ''Zone'' ''H9X'', zone_pref ''Zone2'' ''H9W'']\<rparr>"

text \<open>
  Decoding in the words of the specification. The point of a line: its first two
  non-empty fields (longitude, latitude), when there are two and both parse; a line with
  fewer fields, or with one of the two failing, has none. A third field (the elevation)
  is not read. The points of a part: those of its lines, in order. The surviving parts:
  those with at least three points. \<open>latlon\<close> swaps the two coordinates of every point.
\<close>

definition valid_point :: "(string \<Rightarrow> 'a option) \<Rightarrow> string \<Rightarrow> ('a \<times> 'a) option" where
  "valid_point pf line =
     (case line_fields line of
        f0 # f1 # _ \<Rightarrow>
          (case pf f0 of
             None \<Rightarrow> None
           | Some lon \<Rightarrow> (case pf f1 of None \<Rightarrow> None | Some lat \<Rightarrow> Some (lon, lat)))
      | _ \<Rightarrow> None)"

definition part_points :: "(string \<Rightarrow> 'a option) \<Rightarrow> string \<Rightarrow> 'a ring" where
  "part_points pf part = List.map_filter (valid_point pf) (part_lines part)"

definition surviving_parts :: "(string \<Rightarrow> 'a option) \<Rightarrow> string \<Rightarrow> 'a ring list" where
  "surviving_parts pf coords_text =
     filter (\<lambda>ps. 3 \<le> length ps) (map (part_points pf) (blank_split [] (strip coords_text)))"

definition latlon :: "'a ring \<Rightarrow> 'a ring" where
  "latlon ps = map (\<lambda>(lon, lat). (lat, lon)) ps"

text \<open>
  A coordinate survives the text when its rendering is a plain token (not empty, no white
  space, no comma) that parses back to the coordinate itself.
\<close>

definition plain_token :: "string \<Rightarrow> bool" where
  "plain_token s = (s \<noteq> [] \<and> (\<forall>c\<in>set s. \<not> is_space c \<and> \<not> is_comma c))"

definition faithful :: "('a \<Rightarrow> string) \<Rightarrow> (string \<Rightarrow> 'a option) \<Rightarrow> 'a \<Rightarrow> bool" where
  "faithful fmt pf x = (plain_token (fmt x) \<and> pf (fmt x) = Some x)"











text \<open>
  Payloads for the decoder. \<open>messy_text\<close> has two parts that survive, among lines that do
  not count (a first field that is no number, a single field) and lines that do (empty
  fields between the commas, a third field that is no number), and a part of one point
  between them; the parts are separated by a blank line and by a line of one space.
  \<open>short_text\<close> has a part of two points and a part of none.
\<close>

definition messy_text :: string where
  "messy_text = ''1,2,0'' @ [LF] @ ''x,3'' @ [LF] @ '' 4 ,, 5 '' @ [LF] @ ''7'' @ [LF]
     @ ''8,2,zz'' @ [LF, LF] @ ''1,1'' @ [CR, LF, CHR '' '', CR, LF] @ ''0,0'' @ [LF] @ ''1,0''
     @ [LF] @ ''1,1'' @ [LF]"

definition short_text :: string where
  "short_text = ''1,1'' @ [LF] @ ''2,2'' @ [LF, LF] @ ''abc''"

section \<open>Properties of the route numbering\<close>

lemma next_num_sound:
  assumes "next_num gap used num = Some n"
  shows "n \<notin> set used \<and> (\<exists>k::nat. n = num + int k * gap)"
  using assms
proof (induct rule: next_num.raw_induct[rotated 1, consumes 1])
  case (1 f gap used num n)
  show ?case
  proof (cases "num \<in> set used")
    case True
    with 1 have "f gap used (num + gap) = Some n" by simp
    from 1(1)[OF this] obtain k :: nat where "n \<notin> set used" "n = num + gap + int k * gap"
      by auto
    then have "n = num + int (Suc k) * gap" by (simp add: algebra_simps)
    with \<open>n \<notin> set used\<close> show ?thesis by blast
  next
    case False
    with 1 have "n = num" by simp
    with False show ?thesis by (auto intro: exI[of _ 0])
  qed
qed

lemma next_num_total:
  assumes "1 \<le> gap"
  shows "\<exists>n. next_num gap used num = Some n"
proof (induction "card (set used \<inter> {num..})" arbitrary: num rule: less_induct)
  case less
  show ?case
  proof (cases "num \<in> set used")
    case False
    then show ?thesis by (simp add: next_num.simps)
  next
    case True
    have "num \<notin> set used \<inter> {num + gap..}" using assms by simp
    moreover have "num \<in> set used \<inter> {num..}" using True by simp
    moreover have "set used \<inter> {num + gap..} \<subseteq> set used \<inter> {num..}" using assms by auto
    ultimately have "set used \<inter> {num + gap..} \<subset> set used \<inter> {num..}" by blast
    then have "card (set used \<inter> {num + gap..}) < card (set used \<inter> {num..})"
      by (intro psubset_card_mono) auto
    from less[OF this] obtain n where "next_num gap used (num + gap) = Some n" by blast
    with True show ?thesis by (subst next_num.simps) simp
  qed
qed

text \<open>
  C6 (the part the code keeps). For a gap of at least 1, as the number input of the page
  enforces, every route creation returns; the new number is not among the numbers used
  before, lies at a whole number of gaps above the range minimum, and is not below it.
\<close>

lemma add_route_number_props:
  assumes "1 \<le> gap" and "fsas \<noteq> []"
  shows "\<exists>num k. add_route gap fsas txt st =
           Some (st\<lparr>used_nums := used_nums st @ [num],
                    routes := routes st @
                      [\<lparr>nr_name = prefix0 @ show_int num, nr_zip = join '','' fsas,
                        nr_polygonCoordinates = txt\<rparr>]\<rparr>)
         \<and> num \<notin> set (used_nums st) \<and> num = start_num + int k * gap \<and> start_num \<le> num"
proof -
  from next_num_total[OF assms(1)] obtain num where
    n: "next_num gap (used_nums st) start_num = Some num" by blast
  from next_num_sound[OF n] obtain k :: nat where
    k: "num \<notin> set (used_nums st)" "num = start_num + int k * gap" by blast
  have "0 \<le> int k * gap" using assms(1) by simp
  with k have "start_num \<le> num" by linarith
  with n k assms(2) show ?thesis
    by (auto simp: add_route_def)
qed

text \<open>
  C6 (the part the code misses). The loop never compares the number with \<open>end_num\<close>.
  With a gap of 500 the second route created in a session is numbered 1500, above the
  admissible maximum 1499; the name written to the document is MONT1500. (With the
  default gap 5 the same happens at the 101st route.)
\<close>

theorem add_route_exceeds_end_num:
  "\<exists>st1 st2. add_route 500 [''H9S''] t1 session0 = Some st1
     \<and> add_route 500 [''H9T''] t2 st1 = Some st2
     \<and> used_nums st2 = [1000, 1500]
     \<and> map nr_name (routes st2) = [''MONT1000'', ''MONT1500'']
     \<and> end_num < last (used_nums st2)"
  by (simp add: add_route_def session0_def start_num_def end_num_def next_num.simps
      prefix0_def show_int_def show_nat.simps digit_char_def)

section \<open>Properties of normalisation\<close>

text \<open>
  \<open>normalize_geom\<close> of Home.py returns polygons and multi-polygons as they are, and
  normalising twice is normalising once.
\<close>

lemma normalize_geom_polygonal:
  "is_polygonal g \<Longrightarrow> normalize_geom (Some g) = Some g"
  by (simp add: normalize_geom_def)

lemma normalize_geom_idem: "normalize_geom (normalize_geom geom) = normalize_geom geom"
  by (cases geom)
     (auto simp: normalize_geom_def Let_def split: list.splits)

text \<open>
  C3, for \<open>normalize_geom\<close> of the page "Restructuration par FSA": a collection that holds
  one polygon and one point is answered with \<open>None\<close>, where the function of the same name
  in Home.py returns the polygon.
\<close>

theorem normalize_geom_fsa_drops_collection:
  "normalize_geom_fsa (Some (GeometryCollection [Polygon sq, Point p])) = None
   \<and> normalize_geom (Some (GeometryCollection [Polygon sq, Point p])) = Some (Polygon sq)"
  by (simp add: normalize_geom_fsa_def normalize_geom_def)

section \<open>Properties of the bulk renumbering\<close>

subsection \<open>Evaluation of decimal numerals\<close>

lemma show_nat_0: "show_nat 0 = ''0''"
  by (simp add: show_nat.simps digit_char_def)

lemma show_nat_1: "show_nat (Suc 0) = ''1''"
  by (simp add: show_nat.simps digit_char_def)

lemma show_nat_numeral:
  "show_nat (numeral k) =
     (if (numeral k :: nat) < 10 then [digit_char (numeral k)]
      else show_nat (numeral k div 10) @ [digit_char (numeral k mod 10)])"
  by (rule show_nat.simps)

lemmas show_nat_eval = show_nat_0 show_nat_1 show_nat_numeral digit_char_def

lemmas eval_defs = bulk_renumber_def renumber_steps_def mk_document_def mk_route_def parse_pattern_def is_upper_def
  is_digit_def read_nat_def digit_val_def matches_prefix_def show_int_def show_nat_eval rename_route_def adapt_adjacent_def adapt_representative_def split_where_def
  is_semi_or_comma_def strip_def is_space_def get_or_def adapt_node_def Let_def

subsection \<open>The steps keep what they do not rewrite\<close>

lemma rename_route_representative [simp]:
  "representative (rename_route m r) = representative r"
  by (simp add: rename_route_def split: option.splits)

lemma rename_route_adjacentRoutes [simp]:
  "adjacentRoutes (rename_route m r) = adjacentRoutes r"
  by (simp add: rename_route_def split: option.splits)

lemma rename_route_name: "name (rename_route m r) = get_or m (name r)"
  by (simp add: rename_route_def get_or_def split: option.splits)

lemma adapt_adjacent_representative [simp]:
  "representative (adapt_adjacent m r) = representative r"
  by (simp add: adapt_adjacent_def Let_def)

lemma adapt_adjacent_name [simp]: "name (adapt_adjacent m r) = name r"
  by (simp add: adapt_adjacent_def Let_def)

lemma adapt_representative_name:
  "adapt_representative m r = Inr r' \<Longrightarrow> name r' = name r"
  by (auto simp: adapt_representative_def Let_def split: rep_value.splits if_splits option.splits)

lemma adapt_representative_flagged:
  "adapt_representative m r = (if flagged r then Inl AttributeError else
     Inr (case representative r of
            RepName s \<Rightarrow> (if s = [] then r else
               (case m (strip s) of None \<Rightarrow> r | Some n \<Rightarrow> r\<lparr>representative := RepName n\<rparr>))
          | RepFlag b \<Rightarrow> r))"
  by (auto simp: adapt_representative_def flagged_def Let_def split: rep_value.splits option.splits)

lemma adapt_routes_flagged:
  "\<exists>r\<in>set rs. flagged r \<Longrightarrow> adapt_routes m rs = Inl AttributeError"
proof (induction rs)
  case Nil
  then show ?case by simp
next
  case (Cons r rs)
  show ?case
  proof (cases "flagged r")
    case True
    then have "flagged (adapt_adjacent m r)" by (simp add: flagged_def)
    then show ?thesis by (simp add: adapt_representative_flagged)
  next
    case False
    with Cons.prems have "\<exists>r\<in>set rs. flagged r" by auto
    moreover from False have "\<not> flagged (adapt_adjacent m r)" by (simp add: flagged_def)
    ultimately show ?thesis using Cons.IH
      by (simp add: adapt_representative_flagged)
  qed
qed

lemma adapt_routes_ok:
  "\<forall>r\<in>set rs. \<not> flagged r \<Longrightarrow> \<exists>rs'. adapt_routes m rs = Inr rs'"
proof (induction rs)
  case Nil
  then show ?case by simp
next
  case (Cons r rs)
  then have "\<not> flagged (adapt_adjacent m r)" by (simp add: flagged_def)
  moreover from Cons obtain rs' where "adapt_routes m rs = Inr rs'" by auto
  ultimately show ?case by (simp add: adapt_representative_flagged)
qed

lemma adapt_routes_names:
  "adapt_routes m rs = Inr rs' \<Longrightarrow> map name rs' = map name rs"
proof (induction rs arbitrary: rs')
  case Nil
  then show ?case by simp
next
  case (Cons r rs)
  then show ?case
    by (auto split: sum.splits dest: adapt_representative_name)
qed

lemma adapt_routes_flags:
  "adapt_routes m rs = Inr rs' \<Longrightarrow> (\<forall>r\<in>set rs'. \<not> flagged r)"
proof (induction rs arbitrary: rs')
  case Nil
  then show ?case by simp
next
  case (Cons r rs)
  then show ?case
    by (auto simp: adapt_representative_flagged flagged_def split: sum.splits if_splits rep_value.splits option.splits)
qed

lemma check_routes_flagged:
  "\<exists>r\<in>set rs. flagged r \<Longrightarrow> check_routes names rs acc = Inl TypeError"
proof (induction rs arbitrary: acc)
  case Nil
  then show ?case by simp
next
  case (Cons r rs)
  show ?case
  proof (cases "flagged r")
    case True
    then show ?thesis by (simp add: flagged_def Let_def)
  next
    case False
    with Cons.prems have "\<exists>r\<in>set rs. flagged r" by auto
    from Cons.IH[OF this] show ?thesis
      by (simp add: Let_def split: rep_value.splits)
  qed
qed

lemma check_routes_ok:
  "\<forall>r\<in>set rs. \<not> flagged r \<Longrightarrow> \<exists>b. check_routes names rs acc = Inr b"
proof (induction rs arbitrary: acc)
  case Nil
  then show ?case by simp
next
  case (Cons r rs)
  then show ?case
    by (auto simp: Let_def flagged_def split: rep_value.splits)
qed

subsection \<open>The mapping loop\<close>

lemma loop_other:
  "n \<notin> set (matching p rs) \<Longrightarrow> fst (name_mapping_loop p g rs m c) n = m n"
  by (induction rs arbitrary: m c) auto

lemma loop_snd:
  "snd (name_mapping_loop p g rs m c) = c + g * int (length (matching p rs))"
  by (induction rs arbitrary: m c) (auto simp: algebra_simps)

lemma loop_append:
  "name_mapping_loop p g (xs @ ys) m c =
     name_mapping_loop p g ys (fst (name_mapping_loop p g xs m c)) (snd (name_mapping_loop p g xs m c))"
  by (induction xs arbitrary: m c) auto

lemma loop_dom:
  "dom (fst (name_mapping_loop p g rs m c)) = dom m \<union> set (matching p rs)"
  by (induction rs arbitrary: m c) auto

lemma loop_ran:
  "fst (name_mapping_loop p g rs m c) n = Some v \<Longrightarrow>
     m n = Some v \<or> (\<exists>k. v = p @ show_int k)"
proof (induction rs arbitrary: m c)
  case Nil
  then show ?case by simp
next
  case (Cons r rs)
  show ?case
  proof (cases "matches_prefix p (name r)")
    case False
    with Cons show ?thesis by simp
  next
    case True
    with Cons.prems have
      "fst (name_mapping_loop p g rs (m(name r \<mapsto> p @ show_int c)) (c + g)) n = Some v"
      by simp
    from Cons.IH[OF this] show ?thesis
      by (auto split: if_splits)
  qed
qed

lemma renamed_positional:
  assumes "distinct (matching p rs)"
    and "\<forall>n. \<not> matches_prefix p n \<longrightarrow> m n = None"
  shows "map (get_or (fst (name_mapping_loop p g rs m c))) (map name rs) =
         renumber_names p c g (map name rs)"
  using assms
proof (induction rs arbitrary: m c)
  case Nil
  then show ?case by simp
next
  case (Cons r rs)
  show ?case
  proof (cases "matches_prefix p (name r)")
    case False
    then have "name r \<notin> set (matching p rs)" by auto
    then have "fst (name_mapping_loop p g rs m c) (name r) = m (name r)"
      by (rule loop_other)
    with False Cons.prems(2) have "get_or (fst (name_mapping_loop p g rs m c)) (name r) = name r"
      by (simp add: get_or_def)
    moreover from False Cons.prems have "distinct (matching p rs)" by simp
    ultimately show ?thesis using False Cons.IH[of m c] Cons.prems(2) by simp
  next
    case True
    define m' where "m' = m(name r \<mapsto> p @ show_int c)"
    define M where "M = fst (name_mapping_loop p g rs m' (c + g))"
    from True Cons.prems have d: "distinct (matching p rs)" and ni: "name r \<notin> set (matching p rs)"
      by auto
    from ni have "M (name r) = m' (name r)"
      unfolding M_def by (rule loop_other)
    then have h: "get_or M (name r) = p @ show_int c"
      by (simp add: get_or_def m'_def)
    from True Cons.prems(2) have "\<forall>n. \<not> matches_prefix p n \<longrightarrow> m' n = None"
      by (auto simp: m'_def)
    from Cons.IH[of m' "c + g", OF d this]
    have tail: "map (get_or M) (map name rs) = renumber_names p (c + g) g (map name rs)"
      by (simp only: M_def)
    have step: "fst (name_mapping_loop p g (r # rs) m c) = M"
      using True by (simp add: M_def m'_def)
    have "map (get_or (fst (name_mapping_loop p g (r # rs) m c))) (map name (r # rs)) =
          get_or M (name r) # map (get_or M) (map name rs)"
      unfolding step by simp
    also have "\<dots> = (p @ show_int c) # renumber_names p (c + g) g (map name rs)"
      unfolding h tail ..
    also have "\<dots> = renumber_names p c g (map name (r # rs))"
      using True by simp
    finally show ?thesis .
  qed
qed

lemma renumber_names_length [simp]: "length (renumber_names p c g ns) = length ns"
  by (induction ns arbitrary: c) auto

lemma renumber_names_nth:
  "i < length ns \<Longrightarrow> renumber_names p c g ns ! i =
     (if matches_prefix p (ns ! i)
      then p @ show_int (c + g * int (length (filter (matches_prefix p) (take i ns))))
      else ns ! i)"
proof (induction ns arbitrary: c i)
  case Nil
  then show ?case by simp
next
  case (Cons n ns)
  show ?case
  proof (cases i)
    case 0
    then show ?thesis by simp
  next
    case (Suc j)
    with Cons.prems have "j < length ns" by simp
    from Cons.IH[OF this] Suc show ?thesis
      by (simp add: algebra_simps)
  qed
qed

lemma bulk_renumber_ok:
  assumes "parse_pattern (admissibleRoutePatterns data) = Some (prefix, lo, hi)"
    and "0 \<le> new_min" and "new_min < new_max"
    and "\<forall>r\<in>set (routingParameterUiVehicleDTOs data). representative r \<noteq> RepFlag True"
  shows "\<exists>data' broken. bulk_renumber new_min new_max adjust data = Inr (data', broken)
     \<and> map name (routingParameterUiVehicleDTOs data') =
         map (get_or (fst (name_mapping_loop prefix (routeNumberGap data)
                   (routingParameterUiVehicleDTOs data) Map.empty new_min)))
             (map name (routingParameterUiVehicleDTOs data))
     \<and> admissibleRoutePatterns data' = prefix @ ''|'' @ show_int new_min @ ''|'' @ show_int new_max"
proof -
  let ?m = "fst (name_mapping_loop prefix (routeNumberGap data)
                   (routingParameterUiVehicleDTOs data) Map.empty new_min)"
  let ?renamed = "map (rename_route ?m) (routingParameterUiVehicleDTOs data)"
  from assms(4) have nf: "\<forall>r\<in>set ?renamed. \<not> flagged r"
    by (auto simp: flagged_def)
  have rn: "map name ?renamed = map (get_or ?m) (map name (routingParameterUiVehicleDTOs data))"
    by (simp add: rename_route_name)
  obtain routes' where r': "(if adjust then adapt_routes ?m ?renamed else Inr ?renamed) = Inr routes'"
    using adapt_routes_ok[OF nf, of ?m] by (cases adjust) auto
  have names': "map name routes' = map name ?renamed"
    using r' adapt_routes_names[of ?m ?renamed routes'] by (cases adjust) auto
  have nf': "\<forall>r\<in>set routes'. \<not> flagged r"
    using r' nf adapt_routes_flags[of ?m ?renamed routes'] by (cases adjust) auto
  from check_routes_ok[OF nf'] obtain b where
    b: "check_routes (set (map name routes')) routes' {} = Inr b" by blast
  from assms(1-3) r' b names' rn show ?thesis
    by (simp add: bulk_renumber_def renumber_steps_def Let_def del: set_map)
qed

text \<open>
  C4 (as amended). The new names are looked up by old name, so the statement needs the
  matching names to be pairwise different. When the pattern of the document parses, the
  new range is accepted, no representative is the boolean true and the matching names
  are pairwise different, the renumbering returns, keeps the number of routes, and the
  route at position \<open>i\<close> is named by the prefix and the number \<open>new_min + gap * k\<close>, where
  \<open>k\<close> counts the matching routes before position \<open>i\<close>; this is so whatever its old
  number was, and a route that does not match keeps its name. In particular the routes
  MONT1500, MONT1505, MONT1510 become MONT2000, MONT2005, MONT2010, in this order, for
  the range from 2000 with gap 5.
\<close>

theorem bulk_renumber_positional:
  assumes "parse_pattern (admissibleRoutePatterns data) = Some (prefix, lo, hi)"
    and "0 \<le> new_min" and "new_min < new_max"
    and "\<forall>r\<in>set (routingParameterUiVehicleDTOs data). representative r \<noteq> RepFlag True"
    and "distinct (filter (matches_prefix prefix) (map name (routingParameterUiVehicleDTOs data)))"
  shows "(\<exists>data' broken. bulk_renumber new_min new_max adjust data = Inr (data', broken)
      \<and> length (routingParameterUiVehicleDTOs data') = length (routingParameterUiVehicleDTOs data)
      \<and> (\<forall>i < length (routingParameterUiVehicleDTOs data).
            name (routingParameterUiVehicleDTOs data' ! i) =
              (if matches_prefix prefix (name (routingParameterUiVehicleDTOs data ! i))
               then prefix @ show_int (new_min + routeNumberGap data *
                      int (length (filter (matches_prefix prefix)
                             (map name (take i (routingParameterUiVehicleDTOs data))))))
               else name (routingParameterUiVehicleDTOs data ! i))))
    \<and> (\<exists>data' broken. bulk_renumber 2000 2499 True scenario_doc = Inr (data', broken)
      \<and> map name (routingParameterUiVehicleDTOs data') = [''MONT2000'', ''MONT2005'', ''MONT2010''])"
proof
  let ?rs = "routingParameterUiVehicleDTOs data"
  from bulk_renumber_ok[OF assms(1-4), of adjust] obtain data' broken where
    ok: "bulk_renumber new_min new_max adjust data = Inr (data', broken)" and
    nm: "map name (routingParameterUiVehicleDTOs data') =
         map (get_or (fst (name_mapping_loop prefix (routeNumberGap data) ?rs Map.empty new_min)))
             (map name ?rs)"
    by blast
  from nm renamed_positional[OF assms(5), of Map.empty "routeNumberGap data" new_min]
  have eq: "map name (routingParameterUiVehicleDTOs data') =
            renumber_names prefix new_min (routeNumberGap data) (map name ?rs)"
    by simp
  then have len: "length (routingParameterUiVehicleDTOs data') = length ?rs"
    by (metis length_map renumber_names_length)
  have "name (routingParameterUiVehicleDTOs data' ! i) =
          (if matches_prefix prefix (name (?rs ! i))
           then prefix @ show_int (new_min + routeNumberGap data *
                  int (length (filter (matches_prefix prefix) (map name (take i ?rs)))))
           else name (?rs ! i))" if "i < length ?rs" for i
  proof -
    have "name (routingParameterUiVehicleDTOs data' ! i) =
          map name (routingParameterUiVehicleDTOs data') ! i"
      using that len by simp
    also have "\<dots> = renumber_names prefix new_min (routeNumberGap data) (map name ?rs) ! i"
      by (simp only: eq)
    finally show ?thesis
      using that by (simp add: renumber_names_nth take_map)
  qed
  with ok len show "\<exists>data' broken. bulk_renumber new_min new_max adjust data = Inr (data', broken)
      \<and> length (routingParameterUiVehicleDTOs data') = length ?rs
      \<and> (\<forall>i < length ?rs.
            name (routingParameterUiVehicleDTOs data' ! i) =
              (if matches_prefix prefix (name (?rs ! i))
               then prefix @ show_int (new_min + routeNumberGap data *
                      int (length (filter (matches_prefix prefix) (map name (take i ?rs)))))
               else name (?rs ! i)))"
    by blast
next
  show "\<exists>data' broken. bulk_renumber 2000 2499 True scenario_doc = Inr (data', broken)
      \<and> map name (routingParameterUiVehicleDTOs data') = [''MONT2000'', ''MONT2005'', ''MONT2010'']"
    by (simp add: scenario_doc_def eval_defs)
qed

theorem bulk_renumber_positional_witness:
  "\<exists>data' broken. bulk_renumber 100 200 True shuffled_doc = Inr (data', broken)
     \<and> map name (routingParameterUiVehicleDTOs data') = [''MONT100'', ''DEPOT'', ''MONT105'']"
proof -
  have p: "parse_pattern (admissibleRoutePatterns shuffled_doc) = Some (''MONT'', 1500, 1999)"
    by (simp add: shuffled_doc_def eval_defs)
  have f: "\<forall>r\<in>set (routingParameterUiVehicleDTOs shuffled_doc). representative r \<noteq> RepFlag True"
    by (simp add: shuffled_doc_def eval_defs)
  have d: "distinct (filter (matches_prefix ''MONT'') (map name (routingParameterUiVehicleDTOs shuffled_doc)))"
    by (simp add: shuffled_doc_def eval_defs)
  from bulk_renumber_positional[OF p _ _ f d, of 100 200 True]
  obtain data' broken where
    ok: "bulk_renumber 100 200 True shuffled_doc = Inr (data', broken)" and
    len: "length (routingParameterUiVehicleDTOs data') = length (routingParameterUiVehicleDTOs shuffled_doc)" and
    nth: "\<And>i. i < length (routingParameterUiVehicleDTOs shuffled_doc) \<Longrightarrow>
            name (routingParameterUiVehicleDTOs data' ! i) =
              (if matches_prefix ''MONT'' (name (routingParameterUiVehicleDTOs shuffled_doc ! i))
               then ''MONT'' @ show_int (100 + routeNumberGap shuffled_doc *
                      int (length (filter (matches_prefix ''MONT'')
                             (map name (take i (routingParameterUiVehicleDTOs shuffled_doc))))))
               else name (routingParameterUiVehicleDTOs shuffled_doc ! i))"
    by auto
  from len have l3: "length (routingParameterUiVehicleDTOs data') = 3"
    by (simp add: shuffled_doc_def eval_defs)
  then obtain a b c where abc: "routingParameterUiVehicleDTOs data' = [a, b, c]"
    by (auto simp: numeral_3_eq_3 length_Suc_conv)
  have "name a = ''MONT100''"
    using nth[of 0] by (simp add: abc shuffled_doc_def eval_defs)
  moreover have "name b = ''DEPOT''"
    using nth[of 1] by (simp add: abc shuffled_doc_def eval_defs)
  moreover have "name c = ''MONT105''"
    using nth[of 2] by (simp add: abc shuffled_doc_def eval_defs)
  ultimately have "map name (routingParameterUiVehicleDTOs data') = [''MONT100'', ''DEPOT'', ''MONT105'']"
    by (simp add: abc)
  with ok show ?thesis by simp
qed

text \<open>
  C4 as first stated fails when two matching routes share a name: the second entry of
  the mapping replaces the first, both routes take the second number, and the first
  number is never issued. Going through the names in order would give MONT2000 and
  MONT2005; the saved document has MONT2005 twice.
\<close>

theorem bulk_renumber_positional_counterexample:
  "bulk_renumber 2000 2499 True twin_doc =
     Inr (mk_document ''MONT|2000|2499'' 5
            [mk_route ''MONT2005'' [] (RepName ''MONT2005''),
             mk_route ''MONT2005'' ''MONT2005'' (RepName ''MONT2005'')]
            None, {})
   \<and> renumber_names ''MONT'' 2000 5 (map name (routingParameterUiVehicleDTOs twin_doc)) =
       [''MONT2000'', ''MONT2005'']"
  by (simp add: twin_doc_def eval_defs)

text \<open>
  C10. In a document where some route carries \<open>"representative": true\<close>, the accepted
  renumbering does not return: with the rewriting of references switched on (the default)
  the rewrite of the representative calls \<open>strip\<close> on the boolean, an \<open>AttributeError\<close>;
  with it switched off, the final check splits the boolean, a \<open>TypeError\<close>. The field is
  neither left unchanged nor reported.
\<close>

theorem bulk_renumber_flag_raises:
  assumes "parse_pattern (admissibleRoutePatterns data) = Some (prefix, lo, hi)"
    and "0 \<le> new_min" and "new_min < new_max"
    and "\<exists>r\<in>set (routingParameterUiVehicleDTOs data). representative r = RepFlag True"
  shows "bulk_renumber new_min new_max adjust data =
           Inl (if adjust then AttributeError else TypeError)"
proof -
  let ?m = "fst (name_mapping_loop prefix (routeNumberGap data)
                   (routingParameterUiVehicleDTOs data) Map.empty new_min)"
  let ?renamed = "map (rename_route ?m) (routingParameterUiVehicleDTOs data)"
  from assms(4) have fl: "\<exists>r\<in>set ?renamed. flagged r"
    by (auto simp: flagged_def)
  show ?thesis
  proof (cases adjust)
    case True
    with assms(1-3) adapt_routes_flagged[OF fl] show ?thesis
      by (simp add: bulk_renumber_def renumber_steps_def Let_def)
  next
    case False
    with assms(1-3) check_routes_flagged[OF fl] show ?thesis
      by (simp add: bulk_renumber_def renumber_steps_def Let_def)
  qed
qed

theorem bulk_renumber_flag_raises_witness:
  "bulk_renumber 2000 2020 True flag_doc = Inl AttributeError
   \<and> bulk_renumber 2000 2020 False flag_doc = Inl TypeError"
proof -
  have p: "parse_pattern (admissibleRoutePatterns flag_doc) = Some (''MONT'', 1500, 1520)"
    by (simp add: flag_doc_def eval_defs)
  have f: "\<exists>r\<in>set (routingParameterUiVehicleDTOs flag_doc). representative r = RepFlag True"
    by (simp add: flag_doc_def eval_defs)
  from bulk_renumber_flag_raises[OF p _ _ f, of 2000 2020 True]
       bulk_renumber_flag_raises[OF p _ _ f, of 2000 2020 False]
  show ?thesis by simp
qed

lemma last_matching:
  assumes "matching p rs \<noteq> []"
  shows "\<exists>xs r ys. rs = xs @ r # ys \<and> matches_prefix p (name r) \<and> matching p ys = []"
proof -
  from assms have "\<exists>r\<in>set rs. matches_prefix p (name r)"
    by (auto simp: filter_empty_conv)
  from split_list_last_prop[OF this] obtain xs r ys where
    "rs = xs @ r # ys" "matches_prefix p (name r)" "\<forall>z\<in>set ys. \<not> matches_prefix p (name z)"
    by blast
  then show ?thesis by (auto simp: filter_empty_conv)
qed

lemma loop_last:
  assumes "matches_prefix p (name r)" and "matching p ys = []"
  shows "fst (name_mapping_loop p g (xs @ r # ys) m c) (name r) =
         Some (p @ show_int (c + g * int (length (matching p xs))))"
proof -
  define m1 where "m1 = fst (name_mapping_loop p g xs m c)"
  define c1 where "c1 = snd (name_mapping_loop p g xs m c)"
  have c1: "c1 = c + g * int (length (matching p xs))"
    by (simp add: c1_def loop_snd)
  from assms(2) have ni: "name r \<notin> set (matching p ys)" by simp
  have "fst (name_mapping_loop p g (xs @ r # ys) m c) (name r) =
        fst (name_mapping_loop p g (r # ys) m1 c1) (name r)"
    by (simp only: loop_append m1_def c1_def)
  also have "\<dots> = fst (name_mapping_loop p g ys (m1(name r \<mapsto> p @ show_int c1)) (c1 + g)) (name r)"
    using assms(1) by simp
  also have "\<dots> = (m1(name r \<mapsto> p @ show_int c1)) (name r)"
    using ni by (rule loop_other)
  finally show ?thesis by (simp add: c1)
qed

lemma bulk_renumber_max_irrelevant:
  assumes "bulk_renumber new_min new_max adjust data = Inr (data', broken)"
    and "new_min < new_max'"
  shows "\<exists>data''. bulk_renumber new_min new_max' adjust data = Inr (data'', broken)
            \<and> routingParameterUiVehicleDTOs data'' = routingParameterUiVehicleDTOs data'
            \<and> routingParameterNodeDTOs data'' = routingParameterNodeDTOs data'"
proof -
  from assms(1) obtain prefix lo hi where
    p: "parse_pattern (admissibleRoutePatterns data) = Some (prefix, lo, hi)"
    by (auto simp: bulk_renumber_def split: option.splits)
  from assms(1) p have r: "0 \<le> new_min" "new_min < new_max"
    by (auto simp: bulk_renumber_def split: if_splits)
  from assms(1) p r obtain rs ns where
    st: "renumber_steps prefix new_min adjust data = Inr (rs, ns, broken)" and
    d: "routingParameterUiVehicleDTOs data' = rs" "routingParameterNodeDTOs data' = ns"
    by (auto simp: bulk_renumber_def split: sum.splits)
  from p r assms(2) st d show ?thesis
    by (simp add: bulk_renumber_def)
qed

text \<open>
  C9. The steps that number the routes do not read the new maximum. When the range is
  accepted and there are \<open>n \<ge> 1\<close> matching routes with
  \<open>new_min + (n - 1) * gap > new_max\<close>, the renumbering still returns, and some route of
  the saved document is named by the prefix and a number above the new maximum (the last
  matching route). Any other accepted maximum gives the same routes, nodes and report.
\<close>

theorem bulk_renumber_ignores_new_max:
  assumes "parse_pattern (admissibleRoutePatterns data) = Some (prefix, lo, hi)"
    and "0 \<le> new_min" and "new_min < new_max"
    and "\<forall>r\<in>set (routingParameterUiVehicleDTOs data). representative r \<noteq> RepFlag True"
    and "n = length (filter (matches_prefix prefix) (map name (routingParameterUiVehicleDTOs data)))"
    and "1 \<le> n"
    and "new_max < new_min + (int n - 1) * routeNumberGap data"
  shows "\<exists>data' broken. bulk_renumber new_min new_max adjust data = Inr (data', broken)
     \<and> (\<exists>r\<in>set (routingParameterUiVehicleDTOs data'). \<exists>k. name r = prefix @ show_int k \<and> new_max < k)
     \<and> (\<forall>new_max'. new_min < new_max' \<longrightarrow>
          (\<exists>data''. bulk_renumber new_min new_max' adjust data = Inr (data'', broken)
            \<and> routingParameterUiVehicleDTOs data'' = routingParameterUiVehicleDTOs data'
            \<and> routingParameterNodeDTOs data'' = routingParameterNodeDTOs data'))"
proof -
  let ?rs = "routingParameterUiVehicleDTOs data"
  let ?g = "routeNumberGap data"
  let ?M = "fst (name_mapping_loop prefix ?g ?rs Map.empty new_min)"
  from bulk_renumber_ok[OF assms(1-4), of adjust] obtain data' broken where
    ok: "bulk_renumber new_min new_max adjust data = Inr (data', broken)" and
    nm: "map name (routingParameterUiVehicleDTOs data') = map (get_or ?M) (map name ?rs)"
    by blast
  from assms(5,6) have "length (matching prefix ?rs) \<noteq> 0" by linarith
  then have "matching prefix ?rs \<noteq> []" by (metis list.size(3))
  from last_matching[OF this] obtain xs r ys where
    dec: "?rs = xs @ r # ys" and mr: "matches_prefix prefix (name r)" and ys: "matching prefix ys = []"
    by blast
  define k where "k = new_min + ?g * int (length (matching prefix xs))"
  have "n = length (matching prefix xs) + 1"
    using assms(5) dec mr ys by simp
  with assms(7) have big: "new_max < k"
    by (simp add: k_def algebra_simps)
  have "?M (name r) = Some (prefix @ show_int k)"
    unfolding dec k_def using mr ys by (rule loop_last)
  then have "get_or ?M (name r) = prefix @ show_int k"
    by (simp add: get_or_def)
  moreover have "name r \<in> set (map name ?rs)"
    by (simp add: dec)
  ultimately have "prefix @ show_int k \<in> set (map (get_or ?M) (map name ?rs))"
    by (metis image_eqI list.set_map)
  with nm have "prefix @ show_int k \<in> set (map name (routingParameterUiVehicleDTOs data'))"
    by simp
  then obtain r' where "r' \<in> set (routingParameterUiVehicleDTOs data')" "name r' = prefix @ show_int k"
    by auto
  with big have ex: "\<exists>r\<in>set (routingParameterUiVehicleDTOs data'). \<exists>k. name r = prefix @ show_int k \<and> new_max < k"
    by blast
  have "\<exists>data''. bulk_renumber new_min new_max' adjust data = Inr (data'', broken)
            \<and> routingParameterUiVehicleDTOs data'' = routingParameterUiVehicleDTOs data'
            \<and> routingParameterNodeDTOs data'' = routingParameterNodeDTOs data'"
    if "new_min < new_max'" for new_max'
    using bulk_renumber_max_irrelevant[OF ok that] .
  with ok ex show ?thesis by blast
qed

theorem bulk_renumber_ignores_new_max_witness:
  "\<exists>data' broken. bulk_renumber 2000 2005 True scenario_doc = Inr (data', broken)
     \<and> (\<exists>r\<in>set (routingParameterUiVehicleDTOs data'). \<exists>k. name r = ''MONT'' @ show_int k \<and> 2005 < k)"
proof -
  have p: "parse_pattern (admissibleRoutePatterns scenario_doc) = Some (''MONT'', 1500, 1999)"
    by (simp add: scenario_doc_def eval_defs)
  have f: "\<forall>r\<in>set (routingParameterUiVehicleDTOs scenario_doc). representative r \<noteq> RepFlag True"
    by (simp add: scenario_doc_def eval_defs)
  have n: "(3::nat) = length (filter (matches_prefix ''MONT'') (map name (routingParameterUiVehicleDTOs scenario_doc)))"
    by (simp add: scenario_doc_def eval_defs)
  have g: "(2005::int) < 2000 + (int 3 - 1) * routeNumberGap scenario_doc"
    by (simp add: scenario_doc_def eval_defs)
  from bulk_renumber_ignores_new_max[OF p _ _ f n _ g, of True]
  show ?thesis by auto
qed

section \<open>Properties of the closure check\<close>

subsection \<open>Splitting, joining and stripping\<close>

lemma split_acc_no_sep:
  "\<forall>c\<in>set s. \<not> P c \<Longrightarrow> split_acc P acc s = [acc @ s]"
  by (induction s arbitrary: acc) auto

lemma split_acc_at_sep:
  "\<forall>c\<in>set x. \<not> P c \<Longrightarrow> P c \<Longrightarrow>
     split_acc P acc (x @ c # rest) = (acc @ x) # split_acc P [] rest"
  by (induction x arbitrary: acc) auto

lemma split_where_join:
  assumes "P c" and "xs \<noteq> []" and "\<forall>x\<in>set xs. \<forall>ch\<in>set x. \<not> P ch"
  shows "split_where P (join [c] xs) = xs"
  using assms(2,3)
proof (induction "[c]" xs rule: join.induct)
  case 1
  then show ?case by simp
next
  case (2 x)
  then show ?case by (simp add: split_where_def split_acc_no_sep)
next
  case (3 x y ys)
  then have "split_where P (join [c] (y # ys)) = y # ys" by simp
  moreover have "\<forall>ch\<in>set x. \<not> P ch" using 3 by simp
  ultimately show ?case
    using assms(1) split_acc_at_sep[of x P c "[]" "join [c] (y # ys)"]
    by (simp add: split_where_def)
qed

lemma split_acc_pieces:
  "\<forall>c\<in>set acc. \<not> P c \<Longrightarrow> x \<in> set (split_acc P acc s) \<Longrightarrow> c \<in> set x \<Longrightarrow> \<not> P c"
proof (induction s arbitrary: acc)
  case Nil
  then show ?case by simp
next
  case (Cons a s)
  show ?case
  proof (cases "P a")
    case True
    with Cons.prems(2) have "x = acc \<or> x \<in> set (split_acc P [] s)" by simp
    then show ?thesis
    proof
      assume "x = acc"
      with Cons.prems(1,3) show ?thesis by simp
    next
      assume "x \<in> set (split_acc P [] s)"
      from Cons.IH[OF _ this Cons.prems(3)] show ?thesis by simp
    qed
  next
    case False
    with Cons.prems(2) have x: "x \<in> set (split_acc P (acc @ [a]) s)" by simp
    from False Cons.prems(1) have "\<forall>c\<in>set (acc @ [a]). \<not> P c" by simp
    from Cons.IH[OF this x Cons.prems(3)] show ?thesis .
  qed
qed

lemma split_where_pieces: "x \<in> set (split_where P s) \<Longrightarrow> c \<in> set x \<Longrightarrow> \<not> P c"
  using split_acc_pieces[of "[]" P x s c] by (simp add: split_where_def)

lemma split_acc_nonempty: "split_acc P acc s \<noteq> []"
  by (induction s arbitrary: acc) auto

lemma split_where_nonempty: "split_where P s \<noteq> []"
  by (simp add: split_where_def split_acc_nonempty)

lemma strip_Nil [simp]: "strip [] = []"
  by (simp add: strip_def)

lemma strip_id:
  assumes "s \<noteq> []" and "\<not> is_space (hd s)" and "\<not> is_space (last s)"
  shows "strip s = s"
proof -
  from assms(1,2) have "dropWhile is_space s = s" by (cases s) auto
  moreover from assms(1,3) have "dropWhile is_space (rev s) = rev s"
    by (cases "rev s") (auto simp: last_rev[symmetric] simp del: last_rev)
  ultimately show ?thesis by (simp add: strip_def)
qed

lemma strip_subset: "set (strip s) \<subseteq> set s"
proof -
  have "set (dropWhile is_space (rev (dropWhile is_space s))) \<subseteq> set (rev (dropWhile is_space s))"
    by (rule set_dropWhileD[THEN subsetI]) 
  also have "\<dots> \<subseteq> set s" using set_dropWhileD[of _ is_space s] by auto
  finally show ?thesis by (simp add: strip_def)
qed

lemma strip_ends:
  assumes "strip s \<noteq> []"
  shows "\<not> is_space (hd (strip s)) \<and> \<not> is_space (last (strip s))"
proof -
  define a where "a = dropWhile is_space s"
  define b where "b = dropWhile is_space (rev a)"
  have sb: "strip s = rev b" by (simp add: strip_def a_def b_def)
  with assms have bne: "b \<noteq> []" by simp
  then have hb: "\<not> is_space (hd b)" unfolding b_def by (metis hd_dropWhile)
  from bne have "rev a \<noteq> []" unfolding b_def by auto
  then have ane: "a \<noteq> []" by simp
  then have ha: "\<not> is_space (hd a)" unfolding a_def by (metis hd_dropWhile)
  obtain pre where pre: "rev a = pre @ b"
    unfolding b_def by (metis takeWhile_dropWhile_id)
  then have "a = rev b @ rev pre" by (metis rev_append rev_rev_ident)
  with bne have "hd a = hd (rev b)" by (cases "rev b") auto
  with ha have "\<not> is_space (hd (rev b))" by simp
  moreover from hb bne have "\<not> is_space (last (rev b))" by (simp add: last_rev)
  ultimately show ?thesis by (simp add: sb)
qed

lemma strip_strip [simp]: "strip (strip s) = strip s"
proof (cases "strip s = []")
  case True
  then show ?thesis by simp
next
  case False
  with strip_ends[OF False] show ?thesis by (intro strip_id) auto
qed

lemma tokens_Nil [simp]: "tokens [] = []"
  by (simp add: tokens_def split_where_def)

lemma add_broken_eq:
  "add_broken names refs acc =
     acc \<union> set (filter (\<lambda>t. t \<notin> names) (filter (\<lambda>t. t \<noteq> []) (map strip refs)))"
  by (induction refs arbitrary: acc) (auto simp: Let_def)

lemma add_broken_tokens:
  "add_broken names (split_where is_semi_or_comma s) acc =
     acc \<union> set (filter (\<lambda>t. t \<notin> names) (tokens s))"
  by (simp add: add_broken_eq tokens_def)

lemma check_routes_eq:
  "\<forall>r\<in>set rs. \<not> flagged r \<Longrightarrow>
     check_routes names rs acc =
       Inr (acc \<union> set (filter (\<lambda>t. t \<notin> names) (concat (map route_refs rs))))"
proof (induction rs arbitrary: acc)
  case Nil
  then show ?case by simp
next
  case (Cons r rs)
  then have nf: "\<not> flagged r" and rest: "\<forall>r\<in>set rs. \<not> flagged r" by simp_all
  have adj: "(if adjacentRoutes r = [] then acc
              else add_broken names (split_where is_semi_or_comma (adjacentRoutes r)) acc) =
             acc \<union> set (filter (\<lambda>t. t \<notin> names) (tokens (adjacentRoutes r)))"
    by (simp add: add_broken_tokens)
  show ?case
  proof (cases "representative r")
    case (RepName s)
    have rep: "(if s = [] then b1 else add_broken names (split_where is_semi_or_comma s) b1) =
               b1 \<union> set (filter (\<lambda>t. t \<notin> names) (tokens s))" for b1
      by (simp add: add_broken_tokens)
    show ?thesis
      using RepName Cons.IH[OF rest]
      by (simp only: check_routes.simps Let_def adj rep rep_value.case)
         (auto simp: route_refs_def)
  next
    case (RepFlag b)
    with nf have "\<not> b" by (simp add: flagged_def)
    with RepFlag show ?thesis
      using Cons.IH[OF rest]
      by (simp only: check_routes.simps Let_def adj rep_value.case)
         (auto simp: route_refs_def)
  qed
qed

lemma check_nodes_eq:
  "check_nodes names ns acc =
     acc \<union> set (filter (\<lambda>t. t \<notin> names) (concat (map (\<lambda>n. tokens (label n)) ns)))"
  by (induction ns arbitrary: acc) (auto simp: add_broken_tokens)

lemma renumber_steps_report:
  assumes "renumber_steps prefix new_min adjust data = Inr (rs', ns', broken)"
  shows "broken = unresolved rs' ns'"
proof -
  let ?M = "fst (name_mapping_loop prefix (routeNumberGap data)
                   (routingParameterUiVehicleDTOs data) Map.empty new_min)"
  let ?renamed = "map (rename_route ?M) (routingParameterUiVehicleDTOs data)"
  from assms obtain b where
    c: "check_routes (set (map name rs')) rs' {} = Inr b" and
    br: "broken = (case ns' of None \<Rightarrow> b | Some ns \<Rightarrow> check_nodes (set (map name rs')) ns b)"
    by (auto simp: renumber_steps_def Let_def split: sum.splits simp del: set_map)
  have nf: "\<forall>r\<in>set rs'. \<not> flagged r"
  proof (rule ccontr)
    assume "\<not> ?thesis"
    then have "\<exists>r\<in>set rs'. flagged r" by simp
    from check_routes_flagged[OF this] c show False by simp
  qed
  from c check_routes_eq[OF nf, of "set (map name rs')" "{}"]
  have b: "b = set (filter (\<lambda>t. t \<notin> set (map name rs')) (concat (map route_refs rs')))"
    by simp
  show ?thesis
    unfolding br b unresolved_def node_refs_def
    by (cases ns') (auto simp: check_nodes_eq)
qed

lemma clean_strip: "clean t \<Longrightarrow> strip t = t"
  by (simp add: clean_def strip_id)

lemma tokens_clean:
  assumes "t \<in> set (tokens s)"
  shows "clean t"
proof -
  from assms obtain x where x: "x \<in> set (split_where is_semi_or_comma s)" and t: "t = strip x" and ne: "t \<noteq> []"
    by (auto simp: tokens_def)
  have "\<forall>c\<in>set t. \<not> is_semi_or_comma c"
    using split_where_pieces[OF x] strip_subset[of x] t by blast
  moreover from ne t strip_ends[of x] have "\<not> is_space (hd t)" "\<not> is_space (last t)" by simp_all
  ultimately show ?thesis using ne by (simp add: clean_def)
qed

lemma is_semi_or_comma_comma: "is_semi_or_comma (CHR '','')"
  by (simp add: is_semi_or_comma_def)

lemma tokens_join:
  assumes "\<forall>t\<in>set ts. clean t"
  shows "tokens (join '','' ts) = ts"
proof (cases "ts = []")
  case True
  then show ?thesis by simp
next
  case False
  from assms have "\<forall>x\<in>set ts. \<forall>ch\<in>set x. \<not> is_semi_or_comma ch"
    by (simp add: clean_def)
  from split_where_join[OF is_semi_or_comma_comma False this]
  have "split_where is_semi_or_comma (join '','' ts) = ts" .
  moreover from assms have "map strip ts = ts"
    by (simp add: clean_strip map_idI)
  moreover from assms have "filter (\<lambda>t. t \<noteq> []) ts = ts"
    by (simp add: clean_def)
  ultimately show ?thesis by (simp add: tokens_def)
qed

lemma tokens_no_sep:
  "\<forall>c\<in>set s. \<not> is_semi_or_comma c \<Longrightarrow> tokens s = (if strip s = [] then [] else [strip s])"
  by (simp add: tokens_def split_where_def split_acc_no_sep)

lemma tokens_single: "clean t \<Longrightarrow> tokens t = [t]"
  by (simp add: tokens_no_sep clean_def clean_strip)

lemma get_or_clean: "good_map M \<Longrightarrow> clean t \<Longrightarrow> clean (get_or M t)"
  by (auto simp: good_map_def get_or_def split: option.splits)

lemma get_or_Nil: "good_map M \<Longrightarrow> get_or M [] = []"
  by (simp add: good_map_def get_or_def)

lemma get_or_eq_Nil: "good_map M \<Longrightarrow> (get_or M t = []) = (t = [])"
  by (auto simp: good_map_def get_or_def clean_def split: option.splits)

lemma adj_list_tokens:
  "map strip (filter (\<lambda>a. strip a \<noteq> []) xs) = filter (\<lambda>t. t \<noteq> []) (map strip xs)"
  by (induction xs) auto

lemma adapt_adjacent_refs:
  assumes "good_map M"
  shows "tokens (adjacentRoutes (adapt_adjacent M r)) = map (get_or M) (tokens (adjacentRoutes r))"
proof (cases "adjacentRoutes r = []")
  case True
  then show ?thesis by (simp add: adapt_adjacent_def)
next
  case False
  then have "adjacentRoutes (adapt_adjacent M r) = join '','' (map (get_or M) (tokens (adjacentRoutes r)))"
    by (simp add: adapt_adjacent_def Let_def adj_list_tokens tokens_def)
  moreover have "\<forall>t\<in>set (map (get_or M) (tokens (adjacentRoutes r))). clean t"
    using assms by (auto intro: get_or_clean tokens_clean)
  ultimately show ?thesis by (simp add: tokens_join)
qed

lemma route_refs_alt: "route_refs r = tokens (adjacentRoutes r) @ rep_refs r"
  by (simp add: route_refs_def rep_refs_def)

lemma adapt_representative_refs:
  assumes "good_map M" and "single_rep r" and "adapt_representative M r = Inr r'"
  shows "rep_refs r' = map (get_or M) (rep_refs r) \<and> adjacentRoutes r' = adjacentRoutes r"
proof (cases "representative r")
  case (RepFlag b)
  with assms(3) show ?thesis
    by (auto simp: adapt_representative_def rep_refs_def split: if_splits)
next
  case (RepName s)
  with assms(2) have ns: "\<forall>c\<in>set s. \<not> is_semi_or_comma c" by (simp add: single_rep_def)
  show ?thesis
  proof (cases "s = []")
    case True
    with RepName assms(3) show ?thesis
      by (auto simp: adapt_representative_def rep_refs_def)
  next
    case False
    show ?thesis
    proof (cases "M (strip s)")
      case None
      with RepName False assms(3) have "r' = r"
        by (simp add: adapt_representative_def Let_def)
      moreover from None have "get_or M (strip s) = strip s" by (simp add: get_or_def)
      ultimately show ?thesis using RepName
        by (simp add: rep_refs_def tokens_no_sep[OF ns])
    next
      case (Some n)
      with RepName False assms(3) have r': "r' = r\<lparr>representative := RepName n\<rparr>"
        by (simp add: adapt_representative_def Let_def)
      from Some assms(1) have cn: "clean n" by (auto simp: good_map_def)
      from Some assms(1) have "strip s \<noteq> []" by (auto simp: good_map_def)
      moreover from Some have "get_or M (strip s) = n" by (simp add: get_or_def)
      ultimately show ?thesis using RepName r' cn
        by (simp add: rep_refs_def tokens_no_sep[OF ns] tokens_single)
    qed
  qed
qed

lemma adapt_route_refs:
  assumes "good_map M" and "single_rep r"
    and "adapt_representative M (adapt_adjacent M r) = Inr r'"
  shows "route_refs r' = map (get_or M) (route_refs r)"
proof -
  from assms(2) have "single_rep (adapt_adjacent M r)" by (simp add: single_rep_def)
  from adapt_representative_refs[OF assms(1) this assms(3)]
  have "rep_refs r' = map (get_or M) (rep_refs (adapt_adjacent M r))"
    and "adjacentRoutes r' = adjacentRoutes (adapt_adjacent M r)" by simp_all
  moreover have "rep_refs (adapt_adjacent M r) = rep_refs r" by (simp add: rep_refs_def)
  ultimately show ?thesis
    by (simp add: route_refs_alt adapt_adjacent_refs[OF assms(1)])
qed

lemma adapt_routes_refs:
  assumes "good_map M"
  shows "\<forall>r\<in>set rs. single_rep r \<Longrightarrow> adapt_routes M rs = Inr rs' \<Longrightarrow>
     concat (map route_refs rs') = map (get_or M) (concat (map route_refs rs))"
proof (induction rs arbitrary: rs')
  case Nil
  then show ?case by simp
next
  case (Cons r rs)
  from Cons.prems(2) obtain r' rs'' where
    r': "adapt_representative M (adapt_adjacent M r) = Inr r'" and
    t: "adapt_routes M rs = Inr rs''" and e: "rs' = r' # rs''"
    by (auto split: sum.splits)
  from Cons.prems(1) have "single_rep r" and "\<forall>r\<in>set rs. single_rep r" by simp_all
  with Cons.IH[OF _ t] adapt_route_refs[OF assms _ r'] e show ?case by simp
qed

lemma rename_route_refs [simp]: "route_refs (rename_route M r) = route_refs r"
  by (simp add: route_refs_def)

lemma rename_route_single [simp]: "single_rep (rename_route M r) = single_rep r"
  by (simp add: single_rep_def)

lemma filter_map_get_or:
  assumes "good_map M"
  shows "filter (\<lambda>t. t \<noteq> []) (map (get_or M) xs) = map (get_or M) (filter (\<lambda>t. t \<noteq> []) xs)"
  by (induction xs) (simp_all add: get_or_eq_Nil[OF assms])

lemma adapt_node_refs:
  assumes "good_map M"
  shows "tokens (label (adapt_node M n)) = map (get_or M) (tokens (label n))"
proof (cases "label n = []")
  case True
  then show ?thesis by (simp add: adapt_node_def)
next
  case False
  let ?parts = "split_where is_semi_or_comma (label n)"
  let ?updated = "map (\<lambda>p. get_or M (strip p)) ?parts"
  have lab: "label (adapt_node M n) = join '','' ?updated"
    using False by (simp add: adapt_node_def Let_def)
  have el: "e = [] \<or> clean e" if "e \<in> set ?updated" for e
  proof -
    from that obtain p where p: "p \<in> set ?parts" and e: "e = get_or M (strip p)" by auto
    show ?thesis
    proof (cases "strip p = []")
      case True
      with e assms show ?thesis by (simp add: get_or_Nil)
    next
      case False
      with p have "strip p \<in> set (tokens (label n))" by (auto simp: tokens_def)
      then have "clean (strip p)" by (rule tokens_clean)
      with e assms show ?thesis by (simp add: get_or_clean)
    qed
  qed
  then have nosep: "\<forall>x\<in>set ?updated. \<forall>ch\<in>set x. \<not> is_semi_or_comma ch"
    by (fastforce simp: clean_def)
  have ne: "?updated \<noteq> []" by (simp add: split_where_nonempty)
  from split_where_join[OF is_semi_or_comma_comma ne nosep]
  have sp: "split_where is_semi_or_comma (join '','' ?updated) = ?updated" .
  have "map strip ?updated = ?updated"
  proof (rule map_idI)
    fix e assume "e \<in> set ?updated"
    from el[OF this] show "strip e = e" by (auto simp: clean_strip)
  qed
  then have "tokens (join '','' ?updated) = filter (\<lambda>t. t \<noteq> []) ?updated"
    by (simp only: tokens_def sp)
  also have "\<dots> = filter (\<lambda>t. t \<noteq> []) (map (get_or M) (map strip ?parts))"
    by (simp add: comp_def)
  also have "\<dots> = map (get_or M) (tokens (label n))"
    by (simp only: filter_map_get_or[OF assms] tokens_def)
  finally show ?thesis by (simp only: lab)
qed

lemma digit_char_is_digit: "d < 10 \<Longrightarrow> is_digit (digit_char d)"
  unfolding is_digit_def digit_char_def by (rule nth_mem) simp

lemma show_nat_digits: "show_nat n \<noteq> [] \<and> (\<forall>c\<in>set (show_nat n). is_digit c)"
proof (induction n rule: show_nat.induct)
  case (1 n)
  show ?case
  proof (cases "n < 10")
    case True
    then show ?thesis by (subst (1 2) show_nat.simps) (simp add: digit_char_is_digit)
  next
    case False
    with 1 show ?thesis
      by (subst (1 2) show_nat.simps) (auto simp: digit_char_is_digit)
  qed
qed

lemma is_digit_plain: "is_digit c \<Longrightarrow> \<not> is_space c \<and> \<not> is_semi_or_comma c"
  by (auto simp: is_digit_def is_space_def is_semi_or_comma_def)

lemma is_upper_plain: "is_upper c \<Longrightarrow> \<not> is_space c \<and> \<not> is_semi_or_comma c"
  by (auto simp: is_upper_def is_space_def is_semi_or_comma_def)

lemma show_int_plain:
  "show_int k \<noteq> [] \<and> is_digit (last (show_int k)) \<and>
   (\<forall>c\<in>set (show_int k). \<not> is_space c \<and> \<not> is_semi_or_comma c)"
proof -
  have d: "show_nat n \<noteq> []" "\<forall>c\<in>set (show_nat n). is_digit c" for n
    using show_nat_digits[of n] by simp_all
  have l: "is_digit (last (show_nat n))" for n
    using d[of n] last_in_set by blast
  have m: "\<not> is_space (CHR ''-'') \<and> \<not> is_semi_or_comma (CHR ''-'')"
    by (simp add: is_space_def is_semi_or_comma_def)
  show ?thesis
    using d l m by (auto simp: show_int_def dest: is_digit_plain)
qed

lemma parse_pattern_prefix:
  assumes "parse_pattern s = Some (prefix, lo, hi)"
  shows "prefix \<noteq> [] \<and> (\<forall>c\<in>set prefix. is_upper c)"
proof -
  from assms have "prefix = takeWhile is_upper s \<and> prefix \<noteq> []"
    by (auto simp: parse_pattern_def Let_def split: if_splits list.splits)
  then show ?thesis by (auto dest: set_takeWhileD)
qed

lemma clean_new_name:
  assumes "prefix \<noteq> []" and "\<forall>c\<in>set prefix. is_upper c"
  shows "clean (prefix @ show_int k)"
proof -
  from assms have "\<not> is_space (hd (prefix @ show_int k))"
    by (cases prefix) (auto dest: is_upper_plain)
  moreover have "\<not> is_space (last (prefix @ show_int k))"
    using show_int_plain[of k] by (auto dest: is_digit_plain)
  moreover have "\<forall>c\<in>set (prefix @ show_int k). \<not> is_semi_or_comma c"
    using assms(2) show_int_plain[of k] by (auto dest: is_upper_plain)
  ultimately show ?thesis using assms(1) by (simp add: clean_def)
qed

lemma loop_good_map:
  assumes "prefix \<noteq> []" and "\<forall>c\<in>set prefix. is_upper c"
  shows "good_map (fst (name_mapping_loop prefix g rs Map.empty c))"
proof -
  let ?M = "fst (name_mapping_loop prefix g rs Map.empty c)"
  have "clean v" if "?M k = Some v" for k v
    using loop_ran[OF that] clean_new_name[OF assms] by auto
  moreover have "?M [] = None"
  proof -
    from assms(1) have "\<not> matches_prefix prefix []" by (simp add: matches_prefix_def)
    then have "[] \<notin> set (matching prefix rs)" by simp
    from loop_other[OF this] show ?thesis by simp
  qed
  ultimately show ?thesis by (simp add: good_map_def)
qed

lemma loop_outside_names:
  assumes "d \<notin> set (map name rs)"
  shows "get_or (fst (name_mapping_loop prefix g rs Map.empty c)) d = d"
proof -
  from assms have "d \<notin> set (matching prefix rs)" by auto
  from loop_other[OF this] show ?thesis by (simp add: get_or_def)
qed

lemma renumber_steps_rewrite:
  assumes "prefix \<noteq> []" and "\<forall>c\<in>set prefix. is_upper c"
    and "\<forall>r\<in>set (routingParameterUiVehicleDTOs data). single_rep r"
    and "renumber_steps prefix new_min True data = Inr (rs', ns', broken)"
  shows "map name rs' = map (get_or (fst (name_mapping_loop prefix (routeNumberGap data)
                   (routingParameterUiVehicleDTOs data) Map.empty new_min)))
                 (map name (routingParameterUiVehicleDTOs data))
       \<and> concat (map route_refs rs') @ node_refs ns' =
          map (get_or (fst (name_mapping_loop prefix (routeNumberGap data)
                   (routingParameterUiVehicleDTOs data) Map.empty new_min)))
            (concat (map route_refs (routingParameterUiVehicleDTOs data))
               @ node_refs (routingParameterNodeDTOs data))"
proof -
  let ?M = "fst (name_mapping_loop prefix (routeNumberGap data)
                   (routingParameterUiVehicleDTOs data) Map.empty new_min)"
  let ?renamed = "map (rename_route ?M) (routingParameterUiVehicleDTOs data)"
  have gm: "good_map ?M" using assms(1,2) by (rule loop_good_map)
  from assms(4) have a: "adapt_routes ?M ?renamed = Inr rs'"
    and n: "ns' = map_option (map (adapt_node ?M)) (routingParameterNodeDTOs data)"
    by (auto simp: renumber_steps_def Let_def split: sum.splits simp del: set_map)
  have "map name rs' = map name ?renamed" using a by (rule adapt_routes_names)
  then have names: "map name rs' = map (get_or ?M) (map name (routingParameterUiVehicleDTOs data))"
    by (simp add: rename_route_name)
  from assms(3) have "\<forall>r\<in>set ?renamed. single_rep r" by simp
  from adapt_routes_refs[OF gm this a]
  have refs: "concat (map route_refs rs') =
              map (get_or ?M) (concat (map route_refs (routingParameterUiVehicleDTOs data)))"
    by (simp add: comp_def)
  have nodes: "node_refs ns' = map (get_or ?M) (node_refs (routingParameterNodeDTOs data))"
    unfolding n node_refs_def
    by (cases "routingParameterNodeDTOs data")
       (simp_all add: comp_def adapt_node_refs[OF gm] map_concat)
  from names refs nodes show ?thesis by simp
qed

lemma unresolved_image:
  assumes "map name rs' = map f (map name rs)"
    and "concat (map route_refs rs') @ node_refs ns' = map f refs"
  shows "unresolved rs' ns' = f ` {t \<in> set refs. f t \<notin> f ` set (map name rs)}"
proof -
  have "unresolved rs' ns' = set (filter (\<lambda>t. t \<notin> set (map f (map name rs))) (map f refs))"
    by (simp only: unresolved_def assms)
  also have "\<dots> = f ` {t \<in> set refs. f t \<notin> f ` set (map name rs)}"
    by (induction refs) auto
  finally show ?thesis .
qed

lemma closure_consistent:
  assumes "\<forall>t\<in>set refs. t \<in> N"
  shows "f ` {t \<in> set refs. f t \<notin> f ` N} = {}"
  using assms by auto

lemma closure_one_dangling:
  assumes "{t \<in> set refs. t \<notin> N} = {d}" and "f d = d" and "d \<notin> f ` N"
  shows "f ` {t \<in> set refs. f t \<notin> f ` N} = {d}"
proof -
  from assms(1) have din: "d \<in> set refs" and others: "\<And>t. t \<in> set refs \<Longrightarrow> t \<in> N \<or> t = d"
    by blast+
  have "{t \<in> set refs. f t \<notin> f ` N} = {d}"
  proof (rule set_eqI)
    fix t
    show "(t \<in> {t \<in> set refs. f t \<notin> f ` N}) = (t \<in> {d})"
    proof
      assume "t \<in> {t \<in> set refs. f t \<notin> f ` N}"
      then have "t \<in> set refs" "t \<notin> N" by auto
      with others[of t] show "t \<in> {d}" by simp
    next
      assume "t \<in> {d}"
      with din assms(2,3) show "t \<in> {t \<in> set refs. f t \<notin> f ` N}" by simp
    qed
  qed
  with assms(2) show ?thesis by simp
qed

text \<open>
  C5 (as amended). When the pattern parses, the range is accepted and no representative
  is the boolean true, the renumbering with rewriting returns a saved document and a
  report, whatever the report holds, and the report is exactly the set of references of
  the saved document that are no route name of it. When, in addition, every
  representative that is a string is a single reference: the report is empty when the
  document had no unresolved reference before; and when the document had exactly one
  unresolved reference before, the report is exactly that string, provided the string is
  not a route name of the saved document.
\<close>

theorem bulk_renumber_closure:
  assumes "parse_pattern (admissibleRoutePatterns data) = Some (prefix, lo, hi)"
    and "0 \<le> new_min" and "new_min < new_max"
    and "\<forall>r\<in>set (routingParameterUiVehicleDTOs data). representative r \<noteq> RepFlag True"
  shows "\<exists>data' broken. bulk_renumber new_min new_max True data = Inr (data', broken)
     \<and> broken = unresolved (routingParameterUiVehicleDTOs data') (routingParameterNodeDTOs data')
     \<and> ((\<forall>r\<in>set (routingParameterUiVehicleDTOs data). single_rep r) \<longrightarrow>
          (unresolved (routingParameterUiVehicleDTOs data) (routingParameterNodeDTOs data) = {}
             \<longrightarrow> broken = {})
        \<and> (\<forall>d. unresolved (routingParameterUiVehicleDTOs data) (routingParameterNodeDTOs data) = {d}
               \<and> d \<notin> set (map name (routingParameterUiVehicleDTOs data'))
             \<longrightarrow> broken = {d}))"
proof -
  define rs where "rs = routingParameterUiVehicleDTOs data"
  define ns where "ns = routingParameterNodeDTOs data"
  define f where "f = get_or (fst (name_mapping_loop prefix (routeNumberGap data) rs Map.empty new_min))"
  define refs where "refs = concat (map route_refs rs) @ node_refs ns"
  from bulk_renumber_ok[OF assms(1-4), of True] obtain data' broken where
    ok: "bulk_renumber new_min new_max True data = Inr (data', broken)" by blast
  define rs' where "rs' = routingParameterUiVehicleDTOs data'"
  define ns' where "ns' = routingParameterNodeDTOs data'"
  from assms(1-3) have unf: "bulk_renumber new_min new_max True data =
      (case renumber_steps prefix new_min True data of
         Inl e \<Rightarrow> Inl e
       | Inr (routes', nodes', broken) \<Rightarrow>
           Inr (data\<lparr>admissibleRoutePatterns :=
                        prefix @ ''|'' @ show_int new_min @ ''|'' @ show_int new_max,
                      routingParameterUiVehicleDTOs := routes',
                      routingParameterNodeDTOs := nodes'\<rparr>,
                broken))"
    by (simp add: bulk_renumber_def)
  have st: "renumber_steps prefix new_min True data = Inr (rs', ns', broken)"
  proof (cases "renumber_steps prefix new_min True data")
    case (Inl e)
    with ok unf show ?thesis by simp
  next
    case (Inr x)
    obtain a b c where x: "x = (a, b, c)" by (cases x)
    with Inr ok unf show ?thesis by (auto simp: rs'_def ns'_def)
  qed
  from renumber_steps_report[OF st] have rep: "broken = unresolved rs' ns'" .
  from parse_pattern_prefix[OF assms(1)] have pp: "prefix \<noteq> []" "\<forall>c\<in>set prefix. is_upper c"
    by simp_all
  have un: "unresolved rs ns = {t \<in> set refs. t \<notin> set (map name rs)}"
    by (simp only: unresolved_def refs_def set_filter)
  have a: "broken = unresolved (routingParameterUiVehicleDTOs data') (routingParameterNodeDTOs data')"
    using rep by (simp only: rs'_def ns'_def)
  have bc: "(unresolved (routingParameterUiVehicleDTOs data) (routingParameterNodeDTOs data) = {}
             \<longrightarrow> broken = {})
        \<and> (\<forall>d. unresolved (routingParameterUiVehicleDTOs data) (routingParameterNodeDTOs data) = {d}
               \<and> d \<notin> set (map name (routingParameterUiVehicleDTOs data'))
             \<longrightarrow> broken = {d})"
    if single: "\<forall>r\<in>set (routingParameterUiVehicleDTOs data). single_rep r"
  proof -
    from renumber_steps_rewrite[OF pp single st] have
      names: "map name rs' = map f (map name rs)" and
      refs': "concat (map route_refs rs') @ node_refs ns' = map f refs"
      by (simp_all only: f_def rs_def ns_def refs_def)
    from unresolved_image[OF names refs'] rep
    have br: "broken = f ` {t \<in> set refs. f t \<notin> f ` set (map name rs)}" by simp
    have closed: "broken = {}" if "unresolved rs ns = {}"
    proof -
      from that un have "\<forall>t\<in>set refs. t \<in> set (map name rs)" by blast
      from closure_consistent[OF this] br show ?thesis by simp
    qed
    have one: "broken = {d}" if u: "unresolved rs ns = {d}" and nd: "d \<notin> set (map name rs')" for d
    proof -
      from u un have e: "{t \<in> set refs. t \<notin> set (map name rs)} = {d}" by simp
      then have "d \<notin> set (map name rs)" by blast
      then have fd: "f d = d" unfolding f_def by (rule loop_outside_names)
      from nd names have nd': "d \<notin> f ` set (map name rs)"
        by (metis list.set_map)
      from closure_one_dangling[OF e fd nd'] br show ?thesis by simp
    qed
    have b: "unresolved (routingParameterUiVehicleDTOs data) (routingParameterNodeDTOs data) = {}
            \<longrightarrow> broken = {}"
      using closed unfolding rs_def ns_def by blast
    have c: "\<forall>d. unresolved (routingParameterUiVehicleDTOs data) (routingParameterNodeDTOs data) = {d}
              \<and> d \<notin> set (map name (routingParameterUiVehicleDTOs data'))
            \<longrightarrow> broken = {d}"
      using one unfolding rs_def ns_def rs'_def by blast
    from b c show ?thesis by (rule conjI)
  qed
  then have d: "(\<forall>r\<in>set (routingParameterUiVehicleDTOs data). single_rep r) \<longrightarrow>
          (unresolved (routingParameterUiVehicleDTOs data) (routingParameterNodeDTOs data) = {}
             \<longrightarrow> broken = {})
        \<and> (\<forall>d. unresolved (routingParameterUiVehicleDTOs data) (routingParameterNodeDTOs data) = {d}
               \<and> d \<notin> set (map name (routingParameterUiVehicleDTOs data'))
             \<longrightarrow> broken = {d})"
    by (rule impI)
  show ?thesis
    by (rule exI[of _ data'], rule exI[of _ broken], intro conjI ok a d)
qed

lemmas refs_eval = unresolved_def route_refs_def node_refs_def tokens_def single_rep_def

text \<open>
  C5 as first stated fails when the dangling string is one of the new names: the route
  MONT1500 points at MONT2000, which no route bears; renumbered from 2000, the route
  itself becomes MONT2000, the reference resolves, and the report is empty.
\<close>

theorem bulk_renumber_closure_counterexample:
  "unresolved (routingParameterUiVehicleDTOs dangling_doc) (routingParameterNodeDTOs dangling_doc)
     = {''MONT2000''}
   \<and> bulk_renumber 2000 2499 True dangling_doc =
       Inr (mk_document ''MONT|2000|2499'' 5
              [mk_route ''MONT2000'' ''MONT2000'' (RepName ''MONT2000'')] None, {})"
  by (simp add: dangling_doc_def refs_eval eval_defs)

theorem bulk_renumber_closure_witness:
  "(\<exists>data'. bulk_renumber 2000 2499 True scenario_doc = Inr (data', {}))
   \<and> (\<exists>data'. bulk_renumber 2000 2499 True ghost_doc = Inr (data', {''GHOST''}))"
proof
  have p: "parse_pattern (admissibleRoutePatterns scenario_doc) = Some (''MONT'', 1500, 1999)"
    by (simp add: scenario_doc_def eval_defs)
  have f: "\<forall>r\<in>set (routingParameterUiVehicleDTOs scenario_doc). representative r \<noteq> RepFlag True"
    by (simp add: scenario_doc_def eval_defs)
  have s: "\<forall>r\<in>set (routingParameterUiVehicleDTOs scenario_doc). single_rep r"
    by (simp add: scenario_doc_def refs_eval eval_defs)
  have u: "unresolved (routingParameterUiVehicleDTOs scenario_doc) (routingParameterNodeDTOs scenario_doc) = {}"
    by (simp add: scenario_doc_def refs_eval eval_defs)
  from bulk_renumber_closure[OF p _ _ f, of 2000 2499] s u
  show "\<exists>data'. bulk_renumber 2000 2499 True scenario_doc = Inr (data', {})"
    by auto
next
  have p: "parse_pattern (admissibleRoutePatterns ghost_doc) = Some (''MONT'', 1500, 1999)"
    by (simp add: ghost_doc_def eval_defs)
  have f: "\<forall>r\<in>set (routingParameterUiVehicleDTOs ghost_doc). representative r \<noteq> RepFlag True"
    by (simp add: ghost_doc_def eval_defs)
  have s: "\<forall>r\<in>set (routingParameterUiVehicleDTOs ghost_doc). single_rep r"
    by (simp add: ghost_doc_def refs_eval eval_defs)
  have u: "unresolved (routingParameterUiVehicleDTOs ghost_doc) (routingParameterNodeDTOs ghost_doc) = {''GHOST''}"
    by (simp add: ghost_doc_def refs_eval eval_defs)
  from bulk_renumber_closure[OF p _ _ f, of 2000 2499] s obtain data' broken where
    ok: "bulk_renumber 2000 2499 True ghost_doc = Inr (data', broken)" and
    one: "\<And>d. unresolved (routingParameterUiVehicleDTOs ghost_doc) (routingParameterNodeDTOs ghost_doc) = {d}
            \<Longrightarrow> d \<notin> set (map name (routingParameterUiVehicleDTOs data')) \<Longrightarrow> broken = {d}"
    by auto
  from ok have "map name (routingParameterUiVehicleDTOs data') = [''MONT2000'', ''MONT2005'']"
    by (auto simp: ghost_doc_def eval_defs)
  then have "''GHOST'' \<notin> set (map name (routingParameterUiVehicleDTOs data'))"
    by simp
  from one[OF u this] ok show "\<exists>data'. bulk_renumber 2000 2499 True ghost_doc = Inr (data', {''GHOST''})"
    by simp
qed

section \<open>Properties of the map page\<close>

subsection \<open>Evaluation of decimal numbers\<close>

lemma floor_numeral_quotient:
  "\<lfloor>(numeral a :: rat) / numeral b\<rfloor> = numeral a div numeral b"
  using floor_divide_of_int_eq[of "numeral a" "numeral b", where ?'a = rat] by simp

lemma floor_one_quotient: "\<lfloor>(1 :: rat) / numeral b\<rfloor> = 1 div numeral b"
  using floor_divide_of_int_eq[of 1 "numeral b", where ?'a = rat] by simp

lemma replicate_numeral_eval: "replicate (numeral k) x = x # replicate (pred_numeral k) x"
  by (simp add: numeral_eq_Suc)

lemmas dec_eval = floor_one_quotient replicate_numeral_eval fmt8_rat_def round_half_even_def pad_left_def float_dec_def is_digit_def
  read_nat_def digit_val_def show_nat_eval floor_numeral_quotient Let_def

subsection \<open>The unique zone name\<close>

lemma unique_index_props:
  "base @ show_nat (unique_index base existing i) \<notin> set existing
   \<and> i \<le> unique_index base existing i
   \<and> (\<forall>j. i \<le> j \<and> j < unique_index base existing i \<longrightarrow> base @ show_nat j \<in> set existing)"
proof (induction base existing i rule: unique_index.induct)
  case (1 base existing i)
  show ?case
  proof (cases "base @ show_nat i \<in> set existing")
    case False
    then have "unique_index base existing i = i" by (subst unique_index.simps) simp
    with False show ?thesis by auto
  next
    case True
    from 1[OF True] have
      a: "base @ show_nat (unique_index base existing (i + 1)) \<notin> set existing" and
      b: "i + 1 \<le> unique_index base existing (i + 1)" and
      c: "\<And>j. i + 1 \<le> j \<Longrightarrow> j < unique_index base existing (i + 1)
             \<Longrightarrow> base @ show_nat j \<in> set existing"
      by auto
    have e: "unique_index base existing i = unique_index base existing (i + 1)"
      using True by (subst unique_index.simps) simp
    have "base @ show_nat j \<in> set existing"
      if "i \<le> j" "j < unique_index base existing (i + 1)" for j
    proof (cases "j = i")
      case True
      with \<open>base @ show_nat i \<in> set existing\<close> show ?thesis by simp
    next
      case False
      with that c[of j] show ?thesis by simp
    qed
    with a b show ?thesis unfolding e by auto
  qed
qed

lemma unique_index_Least:
  "unique_index base existing i = (LEAST j. i \<le> j \<and> base @ show_nat j \<notin> set existing)"
proof (rule Least_equality[symmetric])
  show "i \<le> unique_index base existing i
        \<and> base @ show_nat (unique_index base existing i) \<notin> set existing"
    using unique_index_props[of base existing i] by simp
next
  fix j assume "i \<le> j \<and> base @ show_nat j \<notin> set existing"
  then show "unique_index base existing i \<le> j"
    using unique_index_props[of base existing i] by (meson not_le_imp_less)
qed

lemma unique_zone_name_fresh: "unique_zone_name base existing \<notin> set existing"
  using unique_index_props[of base existing 2] by (simp add: unique_zone_name_def)

lemma unique_zone_name_Least:
  "unique_zone_name base existing =
     (if base \<in> set existing
      then base @ show_nat (LEAST j. 2 \<le> j \<and> base @ show_nat j \<notin> set existing)
      else base)"
  by (simp add: unique_zone_name_def unique_index_Least)

subsection \<open>The addition block\<close>

lemma add_block_cases:
  "add_block e data z zir zta ids r = r
   \<or> (\<exists>p. add_block e data z zir zta ids r =
          r\<lparr>routingParameterUiVehiclePreferenceDTOs := routingParameterUiVehiclePreferenceDTOs r @ [p]\<rparr>
        \<and> routingParameterUiPolygonDTO p \<noteq> None
        \<and> pd_name (the (routingParameterUiPolygonDTO p)) = unique_zone_name (strip z) (existing_names_of r))"
  by (auto simp: add_block_def Let_def split: option.splits)

lemma add_block_names:
  "existing_names_of (add_block e data z zir zta ids r) = existing_names_of r
   \<or> existing_names_of (add_block e data z zir zta ids r) =
       existing_names_of r @ [unique_zone_name (strip z) (existing_names_of r)]"
  using add_block_cases[of e data z zir zta ids r]
  by (auto simp: existing_names_of_def)

lemma add_block_distinct:
  assumes "distinct (existing_names_of r)"
  shows "distinct (existing_names_of (add_block e data z zir zta ids r))"
  using add_block_names[of e data z zir zta ids r] assms
    unique_zone_name_fresh[of "strip z" "existing_names_of r"]
  by auto

lemma add_block_keeps [simp]:
  "name (add_block e data z zir zta ids r) = name r"
  "adjacentRoutes (add_block e data z zir zta ids r) = adjacentRoutes r"
  "representative (add_block e data z zir zta ids r) = representative r"
  by (simp_all add: add_block_def Let_def split: option.splits)

lemma remove_block_keeps [simp]:
  "name (remove_block e pidx ztr r) = name r"
  "adjacentRoutes (remove_block e pidx ztr r) = adjacentRoutes r"
  "representative (remove_block e pidx ztr r) = representative r"
  by (simp_all add: remove_block_def Let_def split: option.splits)

lemma rename_block_sets [simp]:
  "name (rename_block pidx nrn nzn nadj r) = nrn"
  "adjacentRoutes (rename_block pidx nrn nzn nadj r) = nadj"
  "representative (rename_block pidx nrn nzn nadj r) = representative r"
  by (simp_all add: rename_block_def)

lemma add_preferences_distinct:
  "distinct (existing_names_of r) \<Longrightarrow> distinct (existing_names_of (add_preferences e data ops r))"
  unfolding add_preferences_def
proof (induction ops arbitrary: r)
  case Nil
  then show ?case by simp
next
  case (Cons op ops)
  obtain z zir zta ids where op: "op = (z, zir, zta, ids)" by (cases op) auto
  from Cons.prems have "distinct (existing_names_of (add_block e data z zir zta ids r))"
    by (rule add_block_distinct)
  from Cons.IH[OF this] show ?case by (simp add: op)
qed

text \<open>
  C7. Starting from a route whose zone names are pairwise different, after any run of
  additions the zone names of the route are pairwise different; and one addition either
  leaves the route as it is (nothing to add, or no geometry) or appends one preference
  whose zone name is the stripped name of the selected zone when no zone of the route
  bears it, and that name followed by the least number from 2 on that gives a name no
  zone of the route bears otherwise.
\<close>

theorem add_preference_unique_zone_names:
  assumes "distinct (existing_names_of r)"
  shows "distinct (existing_names_of (add_preferences e data ops r))
     \<and> (add_block e data z zir zta ids r = r
        \<or> (\<exists>p. add_block e data z zir zta ids r =
               r\<lparr>routingParameterUiVehiclePreferenceDTOs :=
                    routingParameterUiVehiclePreferenceDTOs r @ [p]\<rparr>
             \<and> existing_names_of (add_block e data z zir zta ids r) =
                 existing_names_of r @
                   [if strip z \<in> set (existing_names_of r)
                    then strip z @ show_nat (LEAST j. 2 \<le> j \<and> strip z @ show_nat j \<notin> set (existing_names_of r))
                    else strip z]))"
proof
  show "distinct (existing_names_of (add_preferences e data ops r))"
    using assms by (rule add_preferences_distinct)
next
  let ?new = "if strip z \<in> set (existing_names_of r)
              then strip z @ show_nat (LEAST j. 2 \<le> j \<and> strip z @ show_nat j \<notin> set (existing_names_of r))
              else strip z"
  have u: "unique_zone_name (strip z) (existing_names_of r) = ?new"
    by (rule unique_zone_name_Least)
  from add_block_cases[of e data z zir zta ids r]
  consider "add_block e data z zir zta ids r = r"
    | p where "add_block e data z zir zta ids r =
          r\<lparr>routingParameterUiVehiclePreferenceDTOs := routingParameterUiVehiclePreferenceDTOs r @ [p]\<rparr>"
        "routingParameterUiPolygonDTO p \<noteq> None"
        "pd_name (the (routingParameterUiPolygonDTO p)) = unique_zone_name (strip z) (existing_names_of r)"
    by blast
  then show "add_block e data z zir zta ids r = r
        \<or> (\<exists>p. add_block e data z zir zta ids r =
               r\<lparr>routingParameterUiVehiclePreferenceDTOs :=
                    routingParameterUiVehiclePreferenceDTOs r @ [p]\<rparr>
             \<and> existing_names_of (add_block e data z zir zta ids r) = existing_names_of r @ [?new])"
  proof cases
    case 1
    then show ?thesis by simp
  next
    case 2
    have "existing_names_of (r\<lparr>routingParameterUiVehiclePreferenceDTOs :=
              routingParameterUiVehiclePreferenceDTOs r @ [p]\<rparr>) =
          existing_names_of r @ [unique_zone_name (strip z) (existing_names_of r)]"
      using 2(2,3) by (auto simp: existing_names_of_def)
    with 2(1) u show ?thesis by auto
  qed
qed

theorem add_preference_unique_zone_names_witness:
  "existing_names_of
     (add_preferences env0 home_doc
        [(''Zone '', [''H9X'', ''H9W''], ''h9s'', ''1'', ''2''),
         (''Zone'', [''H9X'', ''H9W'', ''H9S''], ''H9T, h9x'', ''3'', ''4'')] zone_route)
     = [''Zone'', ''Zone2'', ''Zone3'', ''Zone4'']
   \<and> distinct (existing_names_of
     (add_preferences env0 home_doc
        [(''Zone '', [''H9X'', ''H9W''], ''h9s'', ''1'', ''2''),
         (''Zone'', [''H9X'', ''H9W'', ''H9S''], ''H9T, h9x'', ''3'', ''4'')] zone_route))"
proof -
  have d: "distinct (existing_names_of zone_route)"
    by (simp add: zone_route_def existing_names_of_def zone_pref_def mk_route_def)
  have "existing_names_of
     (add_preferences env0 home_doc
        [(''Zone '', [''H9X'', ''H9W''], ''h9s'', ''1'', ''2''),
         (''Zone'', [''H9X'', ''H9W'', ''H9S''], ''H9T, h9x'', ''3'', ''4'')] zone_route)
     = [''Zone'', ''Zone2'', ''Zone3'', ''Zone4'']"
    by (simp add: add_preferences_def add_block_def zip_list_def split_where_def is_comma_def
        strip_def is_space_def env0_def ascii_upper_def merged_text_def two_squares_def
        normalize_geom_def existing_names_of_def unique_zone_name_def unique_index.simps
        show_nat_eval zone_route_def zone_pref_def mk_route_def Let_def)
  with add_preference_unique_zone_names[OF d, where e = env0 and data = home_doc and ops =
      "[(''Zone '', [''H9X'', ''H9W''], ''h9s'', ''1'', ''2''),
        (''Zone'', [''H9X'', ''H9W'', ''H9S''], ''H9T, h9x'', ''3'', ''4'')]"]
  show ?thesis
    by simp
qed

lemmas text_eval = parse_polygon_text_def strip_def is_space_def match_blank_def
  match_newline_def part_lines_def splitlines_def line_fields_def split_where_def is_comma_def
  close_ring_def CR_def LF_def is_linebreak_def point_text_def ring_text_def polygon_to_text_def

lemmas home_eval = apply_changes_def build_polygons_from_data_def pref_entries_def
  match_route_name_def zip_list_def zips_of_route_def set_zone_name_def rename_block_def
  merged_text_def remove_block_def add_block_def existing_names_of_def unique_zone_name_def
  normalize_geom_def env0_def ascii_upper_def two_squares_def home_doc_def zone_pref_def
  square_text_def

lemma square_parses:
  "parse_polygon_text float_dec square_text =
     Some \<lparr>ret_parts_latlon = [[(0, 0), (0, 1), (1, 1), (1, 0)]],
           ret_shapely = Polygon [(0, 0), (1, 0), (1, 1), (0, 1), (0, 0)]\<rparr>"
  by (simp add: square_text_def text_eval dec_eval)

lemma home_polygons:
  "map (\<lambda>p. (route_obj p, pref_obj p, route_name p, zone_name p))
       (build_polygons_from_data float_dec home_doc) =
     [(0, 0, ''MONT1500'', ''Zone''), (0, 1, ''MONT1500'', ''Zone2'')]"
  by (simp add: build_polygons_from_data_def pref_entries_def home_doc_def zone_pref_def
      mk_document_def mk_route_def square_parses)

lemma build_polygons_valid:
  assumes "k < length (build_polygons_from_data pf data)"
  shows "route_obj (build_polygons_from_data pf data ! k) < length (routingParameterUiVehicleDTOs data)"
proof -
  let ?e = "build_polygons_from_data pf data ! k"
  from assms have "?e \<in> set (build_polygons_from_data pf data)" by simp
  then obtain ridx route where
    ir: "(ridx, route) \<in> set (enumerate 0 (routingParameterUiVehicleDTOs data))" and
    ie: "?e \<in> set (pref_entries pf ridx route)"
    by (auto simp: build_polygons_from_data_def)
  from ie have "route_obj ?e = ridx"
    by (auto simp: pref_entries_def split: option.splits)
  moreover from ir have "ridx < length (routingParameterUiVehicleDTOs data)"
    by (simp add: in_set_enumerate_eq)
  ultimately show ?thesis by simp
qed

text \<open>
  C8. When the handler saves, the entry under the click exists, the route it points to
  is in the document and now bears the new name, every other route of the document is
  exactly what it was (so its \<open>adjacentRoutes\<close> and \<open>representative\<close> still hold the old
  name if they held it), and the graph nodes are what they were.
\<close>

theorem rename_does_not_cascade:
  assumes "apply_changes e data k new_route_name new_zone_name new_adj zip_to_remove zip_to_add ids
             = Inr data'"
  shows "k < length (build_polygons_from_data (py_float e) data)
     \<and> route_obj (build_polygons_from_data (py_float e) data ! k)
           < length (routingParameterUiVehicleDTOs data)
     \<and> length (routingParameterUiVehicleDTOs data') = length (routingParameterUiVehicleDTOs data)
     \<and> name (routingParameterUiVehicleDTOs data'
              ! route_obj (build_polygons_from_data (py_float e) data ! k)) = new_route_name
     \<and> (\<forall>j < length (routingParameterUiVehicleDTOs data).
           j \<noteq> route_obj (build_polygons_from_data (py_float e) data ! k) \<longrightarrow>
             routingParameterUiVehicleDTOs data' ! j = routingParameterUiVehicleDTOs data ! j)
     \<and> routingParameterNodeDTOs data' = routingParameterNodeDTOs data"
proof -
  let ?polygons = "build_polygons_from_data (py_float e) data"
  let ?routes = "routingParameterUiVehicleDTOs data"
  from assms have k: "k < length ?polygons"
    by (auto simp: apply_changes_def Let_def split: option.splits if_splits)
  let ?found = "?polygons ! k"
  from build_polygons_valid[OF k] have i: "route_obj ?found < length ?routes" .
  from assms k obtain r3 where
    d: "data' = data\<lparr>routingParameterUiVehicleDTOs := ?routes[route_obj ?found := r3]\<rparr>" and
    n: "name r3 = new_route_name"
    by (auto simp: apply_changes_def Let_def split: option.splits if_splits)
  from d i n show ?thesis using k by simp
qed

theorem rename_does_not_cascade_witness:
  "\<exists>data'. apply_changes env0 home_doc 0 ''MONT1510'' ''Zone'' [] [] [] (''1'', ''2'') = Inr data'
     \<and> name (routingParameterUiVehicleDTOs data' ! 0) = ''MONT1510''
     \<and> adjacentRoutes (routingParameterUiVehicleDTOs data' ! 1) = ''MONT1500''
     \<and> representative (routingParameterUiVehicleDTOs data' ! 1) = RepName ''MONT1500''"
proof -
  have pol: "build_polygons_from_data float_dec home_doc \<noteq> []"
    using home_polygons by auto
  have r0: "route_obj (build_polygons_from_data float_dec home_doc ! 0) = 0"
    using home_polygons by (cases "build_polygons_from_data float_dec home_doc") auto
  have rn: "route_name (build_polygons_from_data float_dec home_doc ! 0) = ''MONT1500''"
    using home_polygons by (cases "build_polygons_from_data float_dec home_doc") auto
  have names: "map route_name (build_polygons_from_data float_dec home_doc) = [''MONT1500'', ''MONT1500'']"
    using home_polygons[THEN arg_cong, of "map (\<lambda>(a, b, c, d). c)"] by (simp add: comp_def)
  have pat: "parse_pattern (admissibleRoutePatterns home_doc) = Some (''MONT'', 1500, 1999)"
    by (simp add: home_doc_def eval_defs)
  have m: "match_route_name ''MONT'' ''MONT1510'' = Some 1510"
    by (simp add: match_route_name_def is_digit_def read_nat_def digit_val_def)
  have "\<exists>data'. apply_changes env0 home_doc 0 ''MONT1510'' ''Zone'' [] [] [] (''1'', ''2'') = Inr data'"
    using pol by (simp add: apply_changes_def pat env0_def m names rn Let_def remove_block_def add_block_def)
  then obtain data' where
    ok: "apply_changes env0 home_doc 0 ''MONT1510'' ''Zone'' [] [] [] (''1'', ''2'') = Inr data'"
    by blast
  from rename_does_not_cascade[OF ok] r0 have
    a: "name (routingParameterUiVehicleDTOs data' ! 0) = ''MONT1510''" and
    b: "\<forall>j < length (routingParameterUiVehicleDTOs home_doc). j \<noteq> 0 \<longrightarrow>
          routingParameterUiVehicleDTOs data' ! j = routingParameterUiVehicleDTOs home_doc ! j"
    by (simp_all add: env0_def)
  from b have "routingParameterUiVehicleDTOs data' ! 1 = routingParameterUiVehicleDTOs home_doc ! 1"
    by (simp add: home_doc_def mk_document_def)
  then have "adjacentRoutes (routingParameterUiVehicleDTOs data' ! 1) = ''MONT1500''"
    and "representative (routingParameterUiVehicleDTOs data' ! 1) = RepName ''MONT1500''"
    by (simp_all add: home_doc_def mk_document_def mk_route_def)
  with ok a show ?thesis by simp
qed

section \<open>Properties of the coordinate text\<close>

subsection \<open>The decoder, part by part\<close>

lemma parse_lines_eq:
  "parse_lines pf lines a b =
     (a @ latlon (List.map_filter (valid_point pf) lines), b @ List.map_filter (valid_point pf) lines)"
proof (induction lines arbitrary: a b)
  case Nil
  then show ?case by (simp add: map_filter_simps latlon_def)
next
  case (Cons line lines)
  show ?case
  proof (cases "valid_point pf line")
    case None
    then have "parse_lines pf (line # lines) a b = parse_lines pf lines a b"
      by (auto simp: valid_point_def Let_def split: list.splits option.splits)
    with None Cons.IH show ?thesis by (simp add: map_filter_simps)
  next
    case (Some p)
    obtain lon lat where p: "p = (lon, lat)" by (cases p)
    from Some p obtain f0 f1 fs where f: "line_fields line = f0 # f1 # fs"
      and "pf f0 = Some lon" "pf f1 = Some lat"
      by (auto simp: valid_point_def split: list.splits option.splits)
    then have "parse_lines pf (line # lines) a b =
               parse_lines pf lines (a @ [(lat, lon)]) (b @ [(lon, lat)])"
      by (simp add: Let_def)
    with Some p Cons.IH show ?thesis by (simp add: map_filter_simps latlon_def)
  qed
qed

lemma parse_parts_eq:
  "parse_parts pf parts pl sp =
     (pl @ map latlon (filter (\<lambda>ps. 3 \<le> length ps) (map (part_points pf) parts)),
      sp @ map close_ring (filter (\<lambda>ps. 3 \<le> length ps) (map (part_points pf) parts)))"
  by (induction parts arbitrary: pl sp) (simp_all add: parse_lines_eq part_points_def)

lemma surviving_blank:
  assumes "strip coords_text = []"
  shows "surviving_parts pf coords_text = []"
  by (simp add: surviving_parts_def assms part_points_def part_lines_def splitlines_def
      map_filter_simps)

lemma parse_polygon_text_alt:
  "parse_polygon_text pf coords_text =
     (case surviving_parts pf coords_text of
        [] \<Rightarrow> None
      | [ps] \<Rightarrow> Some \<lparr>ret_parts_latlon = [latlon ps], ret_shapely = Polygon (close_ring ps)\<rparr>
      | ps # qs # rest \<Rightarrow>
          Some \<lparr>ret_parts_latlon = map latlon (ps # qs # rest),
                ret_shapely = MultiPolygon (map close_ring (ps # qs # rest))\<rparr>)"
proof (cases "strip coords_text = []")
  case True
  then show ?thesis
    by (simp add: parse_polygon_text_def surviving_blank)
next
  case False
  then have ne: "coords_text \<noteq> []" by auto
  define S where "S = surviving_parts pf coords_text"
  have pp: "parse_parts pf (blank_split [] (strip coords_text)) [] [] =
              (map latlon S, map close_ring S)"
    by (simp add: parse_parts_eq S_def surviving_parts_def)
  have "parse_polygon_text pf coords_text =
          (if S = [] then None
           else Some \<lparr>ret_parts_latlon = map latlon S,
                       ret_shapely = (if length S = 1 then Polygon (close_ring (S ! 0))
                                      else MultiPolygon (map close_ring S))\<rparr>)"
    using False ne by (auto simp: parse_polygon_text_def pp Let_def)
  then show ?thesis
    unfolding S_def[symmetric]
    by (cases S; cases "tl S") auto
qed

subsection \<open>Reading back one encoded ring\<close>















subsection \<open>Splitting the encoded text at its blank lines\<close>


















subsection \<open>The round trip\<close>





subsection \<open>The round trip on decimal numbers\<close>





subsection \<open>Numbers with at most eight decimals survive their rendering\<close>

text \<open>
  On the decimal numbers of this development every number with at most eight decimals
  comes back from its rendering, so the round trip holds for every geometry made of such
  coordinates.
\<close>

lemma read_nat_zeros: "read_nat (replicate m (CHR ''0'') @ s) = read_nat s"
proof -
  have "foldl (\<lambda>acc c. acc * 10 + digit_val c) 0 (replicate m (CHR ''0'')) = 0"
    by (induction m) (simp_all add: digit_val_def)
  then show ?thesis by (simp add: read_nat_def)
qed

lemma show_nat_length:
  "n < 10 ^ m \<Longrightarrow> 0 < m \<Longrightarrow> length (show_nat n) \<le> m"
proof (induction n arbitrary: m rule: show_nat.induct)
  case (1 n)
  show ?case
  proof (cases "n < 10")
    case True
    then have "show_nat n = [digit_char n]" by (subst show_nat.simps) simp
    with 1(3) show ?thesis by simp
  next
    case False
    then have s: "show_nat n = show_nat (n div 10) @ [digit_char (n mod 10)]"
      by (subst show_nat.simps) simp
    from False 1(2) have "1 < m" by (cases "m = 1") (use 1(3) in auto)
    then obtain m' where m: "m = Suc m'" "0 < m'" by (cases m) auto
    with 1(2) have "n div 10 < 10 ^ m'" by (simp add: less_mult_imp_div_less mult.commute)
    from 1(1)[OF False this m(2)] s m show ?thesis by simp
  qed
qed

lemma digit_facts:
  "is_digit c \<Longrightarrow> \<not> is_space c \<and> \<not> is_comma c \<and> c \<noteq> CHR ''-'' \<and> c \<noteq> CHR ''+'' \<and> c \<noteq> CHR ''.''"
  by (auto simp: is_digit_def is_space_def is_comma_def)

lemma other_facts:
  "\<not> is_digit (CHR ''.'')" "\<not> is_space (CHR ''.'')" "\<not> is_comma (CHR ''.'')"
  "\<not> is_space (CHR ''-'')" "\<not> is_comma (CHR ''-'')" "is_digit (CHR ''0'')"
  by (simp_all add: is_digit_def is_space_def is_comma_def)

lemma round_half_even_int: "round_half_even (of_int k) = k"
  by (simp add: round_half_even_def)

lemma round_half_even_abs: "round_half_even \<bar>of_int k\<bar> = \<bar>k\<bar>"
  using round_half_even_int[of "\<bar>k\<bar>"] by simp

lemma takeWhile_digits:
  assumes "\<forall>c\<in>set D. is_digit c"
  shows "takeWhile is_digit (D @ CHR ''.'' # F) = D" and "dropWhile is_digit (D @ CHR ''.'' # F) = CHR ''.'' # F"
  using assms other_facts(1) by (simp_all add: takeWhile_append2 dropWhile_append2)

lemma float_dec_plain:
  assumes "D \<noteq> []" and "\<forall>c\<in>set D. is_digit c" and "\<forall>c\<in>set F. is_digit c"
  shows "float_dec (D @ CHR ''.'' # F) = Some (of_nat (read_nat D) + of_nat (read_nat F) / 10 ^ length F)"
    and "float_dec (CHR ''-'' # D @ CHR ''.'' # F) =
           Some (- (of_nat (read_nat D) + of_nat (read_nat F) / 10 ^ length F))"
proof -
  from assms(1,2) have h: "hd (D @ CHR ''.'' # F) \<noteq> CHR ''-''" "hd (D @ CHR ''.'' # F) \<noteq> CHR ''+''"
    by (cases D; auto dest: digit_facts)+
  show "float_dec (D @ CHR ''.'' # F) = Some (of_nat (read_nat D) + of_nat (read_nat F) / 10 ^ length F)"
    using h assms by (simp add: float_dec_def Let_def other_facts(1))
  show "float_dec (CHR ''-'' # D @ CHR ''.'' # F) =
           Some (- (of_nat (read_nat D) + of_nat (read_nat F) / 10 ^ length F))"
    using assms by (simp add: float_dec_def Let_def other_facts(1))
qed

lemma eight_decimals_faithful: "faithful fmt8_rat float_dec (of_int k / 10 ^ 8)"
proof -
  define x :: rat where "x = of_int k / 10 ^ 8"
  define n where "n = nat \<bar>k\<bar>"
  define D where "D = show_nat (n div 10 ^ 8)"
  define F where "F = pad_left 8 (show_nat (n mod 10 ^ 8))"
  have ax: "\<bar>x\<bar> * 10 ^ 8 = of_int \<bar>k\<bar>"
    by (simp add: x_def abs_divide flip: of_int_abs)
  have neg: "(x < 0) = (k < 0)"
    by (simp add: x_def divide_less_0_iff)
  have fmt: "fmt8_rat x = (if k < 0 then ''-'' else []) @ D @ CHR ''.'' # F"
    using ax by (simp add: fmt8_rat_def Let_def round_half_even_abs neg n_def D_def F_def)
  have Dd: "D \<noteq> []" "\<forall>c\<in>set D. is_digit c"
    using show_nat_digits[of "n div 10 ^ 8"] by (simp_all add: D_def)
  have len: "length (show_nat (n mod 10 ^ 8)) \<le> 8"
    by (rule show_nat_length) simp_all
  then have lF: "length F = 8" by (simp add: F_def pad_left_def)
  have Fd: "\<forall>c\<in>set F. is_digit c"
    using show_nat_digits[of "n mod 10 ^ 8"] other_facts(6) by (auto simp: F_def pad_left_def)
  have rD: "read_nat D = n div 10 ^ 8" by (simp add: D_def read_nat_show_nat)
  have rF: "read_nat F = n mod 10 ^ 8"
    by (simp add: F_def pad_left_def read_nat_zeros read_nat_show_nat)
  have val: "(of_nat (read_nat D) + of_nat (read_nat F) / 10 ^ length F :: rat) = of_int \<bar>k\<bar> / 10 ^ 8"
  proof -
    have "(of_nat (n div 10 ^ 8 * 10 ^ 8 + n mod 10 ^ 8) :: rat) = of_nat n"
      by (simp only: div_mult_mod_eq)
    then have "(of_nat (n div 10 ^ 8) * 10 ^ 8 + of_nat (n mod 10 ^ 8) :: rat) = of_nat n"
      by (simp only: of_nat_add of_nat_mult of_nat_power of_nat_numeral)
    then have "(of_nat (n div 10 ^ 8) + of_nat (n mod 10 ^ 8) / 10 ^ 8 :: rat) = of_nat n / 10 ^ 8"
      by (simp add: field_simps)
    moreover have "(of_nat n :: rat) = of_int \<bar>k\<bar>" by (simp add: n_def)
    ultimately show ?thesis by (simp add: rD rF lF)
  qed
  have parse: "float_dec (fmt8_rat x) = Some x"
  proof (cases "k < 0")
    case True
    then have xv: "- (of_int \<bar>k\<bar> / 10 ^ 8) = x" by (simp add: x_def)
    from True fmt have "float_dec (fmt8_rat x) = float_dec (CHR ''-'' # D @ CHR ''.'' # F)"
      by simp
    also have "\<dots> = Some (- (of_nat (read_nat D) + of_nat (read_nat F) / 10 ^ length F))"
      by (rule float_dec_plain(2)[OF Dd Fd])
    also have "\<dots> = Some x"
      by (simp only: val xv)
    finally show ?thesis .
  next
    case False
    then have xv: "of_int \<bar>k\<bar> / 10 ^ 8 = x" by (simp add: x_def)
    from False fmt have "float_dec (fmt8_rat x) = float_dec (D @ CHR ''.'' # F)"
      by simp
    also have "\<dots> = Some (of_nat (read_nat D) + of_nat (read_nat F) / 10 ^ length F)"
      by (rule float_dec_plain(1)[OF Dd Fd])
    also have "\<dots> = Some x"
      by (simp only: val xv)
    finally show ?thesis .
  qed
  have plain: "plain_token (fmt8_rat x)"
    using Dd Fd other_facts by (auto simp: fmt plain_token_def dest: digit_facts)
  from plain parse show ?thesis by (simp add: faithful_def x_def)
qed

subsection \<open>Lenient decoding\<close>

lemma valid_point_None:
  "(valid_point pf line = None) =
     (length (line_fields line) < 2 \<or> pf (line_fields line ! 0) = None
        \<or> pf (line_fields line ! 1) = None)"
proof (cases "line_fields line")
  case Nil
  then show ?thesis by (simp add: valid_point_def)
next
  case (Cons f0 fs)
  then show ?thesis
    by (cases fs) (auto simp: valid_point_def split: option.splits)
qed

text \<open>
  C2. For every payload the decoder returns what the surviving parts dictate: \<open>None\<close>
  when no part survives, a polygon when one does, a multi-polygon of all of them when
  several do; a part survives when at least three of its lines give a point; and a line
  gives no point exactly when it has fewer than two fields or its first or second field
  does not parse. No line and no part stops the decoding: the function is total.
\<close>

theorem parse_polygon_text_lenient:
  "parse_polygon_text pf coords_text =
     (case surviving_parts pf coords_text of
        [] \<Rightarrow> None
      | [ps] \<Rightarrow> Some \<lparr>ret_parts_latlon = [latlon ps], ret_shapely = Polygon (close_ring ps)\<rparr>
      | ps # qs # rest \<Rightarrow>
          Some \<lparr>ret_parts_latlon = map latlon (ps # qs # rest),
                ret_shapely = MultiPolygon (map close_ring (ps # qs # rest))\<rparr>)
   \<and> ((valid_point pf line = None) =
        (length (line_fields line) < 2 \<or> pf (line_fields line ! 0) = None
           \<or> pf (line_fields line ! 1) = None))"
  using parse_polygon_text_alt[of pf coords_text] valid_point_None[of pf line] by simp

lemmas surviving_eval = surviving_parts_def part_points_def valid_point_def latlon_def
  strip_def is_space_def match_blank_def match_newline_def part_lines_def splitlines_def
  line_fields_def split_where_def is_comma_def close_ring_def CR_def LF_def is_linebreak_def
  map_filter_simps

theorem parse_polygon_text_lenient_witness:
  "parse_polygon_text float_dec messy_text =
     Some \<lparr>ret_parts_latlon = [[(2, 1), (5, 4), (2, 8)], [(0, 0), (0, 1), (1, 1)]],
           ret_shapely = MultiPolygon [[(1, 2), (4, 5), (8, 2), (1, 2)],
                                       [(0, 0), (1, 0), (1, 1), (0, 0)]]\<rparr>
   \<and> parse_polygon_text float_dec short_text = None"
proof -
  have m: "surviving_parts float_dec messy_text =
             [[(1, 2), (4, 5), (8, 2)], [(0, 0), (1, 0), (1, 1)]]"
    by (simp add: messy_text_def surviving_eval dec_eval)
  have s: "surviving_parts float_dec short_text = []"
    by (simp add: short_text_def surviving_eval dec_eval)
  from parse_polygon_text_lenient[of float_dec messy_text]
       parse_polygon_text_lenient[of float_dec short_text]
  show ?thesis
    by (simp add: m s latlon_def close_ring_def)
qed

end
